theory Spec2Isabelle
  imports Main "HOL-Library.Sublist"
begin

section \<open>Python strings\<close>

text \<open>
  A Python \<open>str\<close> is the list of its code points. The source has string literals with
  code points above 255 (the glyphs of the two status lines), and \<open>str.strip\<close> removes
  white space of the whole Unicode range, so a code point is a natural number and not an
  8-bit \<open>char\<close>. \<open>py ''abc''\<close> is the Python literal \<open>"abc"\<close>; a line feed is
  \<open>[10]\<close>.
\<close>

type_synonym pystr = "nat list"

abbreviation (input) py :: "string \<Rightarrow> pystr" where
  "py s \<equiv> map of_char s"

text \<open>\<open>find_in sub s\<close> is \<open>s.find(sub)\<close>: the lowest index where \<open>sub\<close> occurs.\<close>

fun find_in :: "pystr \<Rightarrow> pystr \<Rightarrow> nat option" where
  "find_in sub [] = (if sub = [] then Some 0 else None)"
| "find_in sub (c # cs) =
     (if prefix sub (c # cs) then Some 0 else map_option Suc (find_in sub cs))"

text \<open>\<open>py_find s sub start\<close> is \<open>s.find(sub, start)\<close> for \<open>start \<ge> 0\<close>; \<open>None\<close> is \<open>-1\<close>.\<close>

definition py_find :: "pystr \<Rightarrow> pystr \<Rightarrow> nat \<Rightarrow> nat option" where
  "py_find s sub start =
     (if start \<le> length s then map_option (\<lambda>i. start + i) (find_in sub (drop start s))
      else None)"

text \<open>\<open>slice s a b\<close> is \<open>s[a:b]\<close> for indices \<open>a, b \<ge> 0\<close>.\<close>

definition slice :: "pystr \<Rightarrow> nat \<Rightarrow> nat \<Rightarrow> pystr" where
  "slice s a b = take (b - a) (drop a s)"

text \<open>\<open>str.isspace\<close> on one code point: the white-space table of CPython.\<close>

definition isspace :: "nat \<Rightarrow> bool" where
  "isspace c \<longleftrightarrow>
     (9 \<le> c \<and> c \<le> 13) \<or> (28 \<le> c \<and> c \<le> 32) \<or> c = 133 \<or> c = 160 \<or> c = 5760 \<or>
     (8192 \<le> c \<and> c \<le> 8202) \<or> c = 8232 \<or> c = 8233 \<or> c = 8239 \<or> c = 8287 \<or>
     c = 12288"

definition strip :: "pystr \<Rightarrow> pystr" where
  "strip s = rev (dropWhile isspace (rev (dropWhile isspace s)))"

text \<open>
  \<open>py_replace s old new\<close> is \<open>s.replace(old, new)\<close>: every occurrence of \<open>old\<close>, from
  the left, without overlap.
\<close>

function py_replace :: "pystr \<Rightarrow> pystr \<Rightarrow> pystr \<Rightarrow> pystr" where
  "py_replace s old new =
     (if old = [] then new @ concat (map (\<lambda>c. c # new) s)
      else (case find_in old s of
              None \<Rightarrow> s
            | Some i \<Rightarrow> take i s @ new @ py_replace (drop (i + length old) s) old new))"
  by pat_completeness auto

lemma find_in_le: "find_in sub s = Some i \<Longrightarrow> i + length sub \<le> length s"
proof (induction s arbitrary: i)
  case Nil
  then show ?case by (simp split: if_splits)
next
  case (Cons c cs)
  then show ?case
    by (auto split: if_splits dest: prefix_length_le)
qed

lemma drop_find_in_shorter:
  assumes "sep \<noteq> []" and "find_in sep s = Some i"
  shows "length s - (i + length sep) < length s"
proof -
  from assms(2) have "i + length sep \<le> length s"
    by (rule find_in_le)
  moreover from assms(1) have "0 < length sep"
    by simp
  ultimately show ?thesis
    by arith
qed

termination py_replace
  by (relation "measure (\<lambda>(s, old, new). length s)") (simp_all add: drop_find_in_shorter)

text \<open>
  \<open>py_split s sep\<close> is \<open>s.split(sep)\<close>. Python raises \<open>ValueError\<close> on an empty
  separator; every call of the source passes a literal that is not empty.
\<close>

function py_split :: "pystr \<Rightarrow> pystr \<Rightarrow> pystr list" where
  "py_split s sep =
     (if sep = [] then [s]
      else (case find_in sep s of
              None \<Rightarrow> [s]
            | Some i \<Rightarrow> take i s # py_split (drop (i + length sep) s) sep))"
  by pat_completeness auto

termination py_split
  by (relation "measure (\<lambda>(s, sep). length s)") (simp_all add: drop_find_in_shorter)

text \<open>\<open>py_join sep xs\<close> is \<open>sep.join(xs)\<close>.\<close>

fun py_join :: "pystr \<Rightarrow> pystr list \<Rightarrow> pystr" where
  "py_join sep [] = []"
| "py_join sep [x] = x"
| "py_join sep (x # y # ys) = x @ sep @ py_join sep (y # ys)"

declare py_replace.simps [simp del] py_split.simps [simp del]

section \<open>Paths and the file system\<close>

text \<open>
  A \<open>pathlib.Path\<close> is the list of its parts below the root directory \<open>/\<close> (every path
  of the model is absolute). \<open>path_parts\<close> parses a string as \<open>pathlib\<close> does: empty parts
  and \<open>.\<close> are dropped, \<open>..\<close> is kept. \<open>joinpath base s\<close> is \<open>base / s\<close>: an absolute
  \<open>s\<close> replaces \<open>base\<close>. \<open>parent\<close> is \<open>Path.parent\<close>, which is lexical.
\<close>

type_synonym path = "pystr list"

definition path_parts :: "pystr \<Rightarrow> path" where
  "path_parts s = filter (\<lambda>c. c \<noteq> [] \<and> c \<noteq> py ''.'') (py_split s (py ''/''))"

definition joinpath :: "path \<Rightarrow> pystr \<Rightarrow> path" where
  "joinpath base s = (if prefix (py ''/'') s then path_parts s else base @ path_parts s)"

definition parent :: "path \<Rightarrow> path" where
  "parent p = butlast p"

text \<open>
  The file system maps the normalised absolute path of every node to the node: a regular
  file with its content, or a directory. It is a file system of Linux whose encoding, like
  the one of the locale, is UTF-8. There are no symbolic links, every directory may be
  written, and there is no limit on the length of a name or a path nor on the space that
  is used. The operating system resolves a path part by part: \<open>walk fs cur ps\<close> starts in
  the directory \<open>cur\<close>; each part is looked up in a node that has to be a directory, and
  \<open>..\<close> leads to the parent of the current directory (the root is its own parent).
\<close>

datatype node = File pystr | Dir

type_synonym fs = "path \<Rightarrow> node option"

datatype errno = ENOENT | ENOTDIR | EISDIR | EEXIST

text \<open>
  The exceptions of the calls on files: an \<open>OSError\<close> with its error number and the file
  name of the call, the \<open>ValueError\<close> of a path that cannot be passed to the operating
  system, and the \<open>UnicodeEncodeError\<close> of a text that cannot be written.
\<close>

datatype exn = OSError errno path | ValueError path | UnicodeEncodeError pystr

text \<open>
  A path is converted before a system call sees it (\<open>os.fsencode\<close>): a code point of a
  surrogate that is no escaped byte (\<open>U+DC80\<close> to \<open>U+DCFF\<close>) raises \<open>UnicodeEncodeError\<close>, which
  is a \<open>ValueError\<close>, and a \<open>NUL\<close> raises \<open>ValueError\<close>. A text is written in UTF-8,
  which encodes no surrogate.
\<close>

definition surrogate :: "nat \<Rightarrow> bool" where
  "surrogate c \<longleftrightarrow> 55296 \<le> c \<and> c \<le> 57343"

definition bad_path :: "path \<Rightarrow> bool" where
  "bad_path p =
     list_ex (list_ex (\<lambda>c. c = 0 \<or> (surrogate c \<and> \<not> (56448 \<le> c \<and> c \<le> 56575)))) p"

definition encodable :: "pystr \<Rightarrow> bool" where
  "encodable s = list_all (\<lambda>c. \<not> surrogate c) s"

fun walk :: "fs \<Rightarrow> path \<Rightarrow> path \<Rightarrow> errno + path" where
  "walk fs cur [] = Inr cur"
| "walk fs cur (c # cs) =
     (case fs cur of
        None \<Rightarrow> Inl ENOENT
      | Some (File _) \<Rightarrow> Inl ENOTDIR
      | Some Dir \<Rightarrow> (if c = py ''..'' then walk fs (butlast cur) cs else walk fs (cur @ [c]) cs))"

text \<open>
  \<open>Path.exists\<close> and \<open>Path.is_dir\<close>: a \<open>stat\<close> that fails, or a path that cannot be
  converted, is the answer \<open>False\<close>.
\<close>

definition path_exists :: "fs \<Rightarrow> path \<Rightarrow> bool" where
  "path_exists fs p =
     (if bad_path p then False
      else (case walk fs [] p of Inl _ \<Rightarrow> False | Inr t \<Rightarrow> fs t \<noteq> None))"

definition is_dir :: "fs \<Rightarrow> path \<Rightarrow> bool" where
  "is_dir fs p =
     (if bad_path p then False
      else (case walk fs [] p of Inl _ \<Rightarrow> False | Inr t \<Rightarrow> fs t = Some Dir))"

text \<open>\<open>os.mkdir(p)\<close>: the parent has to be a directory and the node has to be new.\<close>

definition os_mkdir :: "fs \<Rightarrow> path \<Rightarrow> exn + fs" where
  "os_mkdir fs p =
     (if bad_path p then Inl (ValueError p)
      else (case walk fs [] p of
              Inl e \<Rightarrow> Inl (OSError e p)
            | Inr t \<Rightarrow>
                (if fs t \<noteq> None then Inl (OSError EEXIST p) else Inr (fs(t \<mapsto> Dir)))))"

text \<open>
  \<open>Path.mkdir(parents=False, exist_ok=True)\<close>, as \<open>pathlib\<close> writes it: \<open>FileNotFoundError\<close>
  is raised again, any other \<open>OSError\<close> is swallowed when the path is a directory, and an
  exception that is no \<open>OSError\<close> is not caught.
\<close>

definition mkdir_exist_ok :: "fs \<Rightarrow> path \<Rightarrow> fs \<times> exn option" where
  "mkdir_exist_ok fs p =
     (case os_mkdir fs p of
        Inr fs' \<Rightarrow> (fs', None)
      | Inl (OSError e q) \<Rightarrow>
          (if e = ENOENT then (fs, Some (OSError e q))
           else if is_dir fs p then (fs, None) else (fs, Some (OSError e q)))
      | Inl x \<Rightarrow> (fs, Some x))"

text \<open>
  \<open>Path.mkdir(parents=True, exist_ok=True)\<close>: on \<open>FileNotFoundError\<close> the parent is made
  first (with its own parents), then the directory itself without \<open>parents\<close>. The file
  system is returned also when an error is raised: the directories made so far stay.
\<close>

function mkdir_parents :: "fs \<Rightarrow> path \<Rightarrow> fs \<times> exn option" where
  "mkdir_parents fs p =
     (case os_mkdir fs p of
        Inr fs' \<Rightarrow> (fs', None)
      | Inl (OSError e q) \<Rightarrow>
          (if e = ENOENT then
             (if parent p = p then (fs, Some (OSError e q))
              else (case mkdir_parents fs (parent p) of
                      (fs1, Some err) \<Rightarrow> (fs1, Some err)
                    | (fs1, None) \<Rightarrow> mkdir_exist_ok fs1 p))
           else if is_dir fs p then (fs, None) else (fs, Some (OSError e q)))
      | Inl x \<Rightarrow> (fs, Some x))"
  by pat_completeness auto

lemma parent_shorter: "parent p \<noteq> p \<Longrightarrow> length (parent p) < length p"
  by (cases p rule: rev_cases) (simp_all add: parent_def)

termination mkdir_parents
  by (relation "measure (\<lambda>(fs, p). length p)") (simp_all add: parent_shorter)

declare mkdir_parents.simps [simp del]

text \<open>
  \<open>open(p, "w")\<close>: the file is created, or truncated when it is there. The result is the
  file system and the node of the open file.
\<close>

definition open_w :: "fs \<Rightarrow> path \<Rightarrow> exn + fs \<times> path" where
  "open_w fs p =
     (if bad_path p then Inl (ValueError p)
      else (case walk fs [] p of
              Inl e \<Rightarrow> Inl (OSError e p)
            | Inr t \<Rightarrow> (case fs t of
                          Some Dir \<Rightarrow> Inl (OSError EISDIR p)
                        | _ \<Rightarrow> Inr (fs(t \<mapsto> File []), t))))"

text \<open>
  The calls of \<open>write\<close> on the open file, one for each text of the list: a text is
  encoded as a whole, so the first one that cannot be encoded raises and leaves the texts
  before it as what is written.
\<close>

fun write_all :: "pystr list \<Rightarrow> pystr \<Rightarrow> pystr \<times> exn option" where
  "write_all [] written = (written, None)"
| "write_all (chunk # chunks) written =
     (if encodable chunk then write_all chunks (written @ chunk)
      else (written, Some (UnicodeEncodeError chunk)))"

text \<open>
  \<open>with open(p, "w") as f:\<close> with the calls \<open>f.write(chunk)\<close> in its body. The file is
  closed, with what was written, also when a \<open>write\<close> raises.
\<close>

definition write_file :: "fs \<Rightarrow> path \<Rightarrow> pystr list \<Rightarrow> fs \<times> exn option" where
  "write_file fs p chunks =
     (case open_w fs p of
        Inl e \<Rightarrow> (fs, Some e)
      | Inr (fs1, t) \<Rightarrow>
          (case write_all chunks [] of (written, r) \<Rightarrow> (fs1(t \<mapsto> File written), r)))"

text \<open>
  The content of a file as it is stored: what a read without any translation of line
  ends gives. \<open>None\<close> when the file cannot be opened.
\<close>

definition read_file :: "fs \<Rightarrow> path \<Rightarrow> pystr option" where
  "read_file fs p =
     (if bad_path p then None
      else (case walk fs [] p of
              Inl _ \<Rightarrow> None
            | Inr t \<Rightarrow> (case fs t of Some (File content) \<Rightarrow> Some content | _ \<Rightarrow> None)))"

text \<open>
  \<open>open(p)\<close> and what is read from it: a file that is opened as text translates \<open>\r\n\<close>
  and \<open>\r\<close> to \<open>\n\<close> (universal newlines). \<open>None\<close> when the call raises.
\<close>

fun universal_newlines :: "pystr \<Rightarrow> pystr" where
  "universal_newlines [] = []"
| "universal_newlines [c] = [if c = 13 then 10 else c]"
| "universal_newlines (c # d # ds) =
     (if c = 13 \<and> d = 10 then 10 # universal_newlines ds
      else if c = 13 then 10 # universal_newlines (d # ds)
      else c # universal_newlines (d # ds))"

definition read_text :: "fs \<Rightarrow> path \<Rightarrow> pystr option" where
  "read_text fs p = map_option universal_newlines (read_file fs p)"

section \<open>The edit directives of an assistant response\<close>

text \<open>
  \<open>_process_file_edits\<close> looks for the two markers in the response of the assistant. The
  first one ends with a blank and has 11 characters, the second one has 13.
\<close>

definition FILE_EDIT :: pystr where
  "FILE_EDIT = py ''FILE_EDIT: ''"

definition END_FILE_EDIT :: pystr where
  "END_FILE_EDIT = py ''END_FILE_EDIT''"

text \<open>
  The two status lines, with the code points the literals of the source file hold before
  and after the text.
\<close>

definition glyph_applied :: pystr where
  "glyph_applied = [240, 376, 8221, 8222]"

definition glyph_failed :: pystr where
  "glyph_failed = [226, 338]"

definition applied_line :: "pystr \<Rightarrow> pystr" where
  "applied_line file_path_str =
     glyph_applied @ py '' APPLIED CHANGES TO: '' @ file_path_str @ py '' '' @ glyph_applied"

definition failed_line :: "pystr \<Rightarrow> pystr \<Rightarrow> pystr" where
  "failed_line file_path_str msg =
     glyph_failed @ py '' ERROR UPDATING '' @ file_path_str @ py '': '' @ msg @ py '' '' @
     glyph_failed"

text \<open>
  The \<open>try\<close> block of the loop: the parent directories are made, then the file is
  written. \<open>Some e\<close> is the exception that the \<open>except\<close> clause catches, with the file
  system as the calls before it left it; \<open>None\<close> is an applied edit. The two \<open>git\<close> calls
  that follow the write run in a process of their own, on the repository data, and every
  error of theirs is ignored: they are not modelled.
\<close>

definition apply_edit :: "fs \<Rightarrow> path \<Rightarrow> pystr \<Rightarrow> fs \<times> exn option" where
  "apply_edit fs full_path file_content =
     (case mkdir_parents fs (parent full_path) of
        (fs1, Some e) \<Rightarrow> (fs1, Some e)
      | (fs1, None) \<Rightarrow> write_file fs1 full_path [file_content])"

text \<open>
  The body of the loop for the three indices it has found. The state is the file system
  and \<open>edited_response\<close>; \<open>str_exc e\<close> is \<open>str(e)\<close>, the message of the exception.
\<close>

definition edit_step ::
  "(exn \<Rightarrow> pystr) \<Rightarrow> path \<Rightarrow> pystr \<Rightarrow> nat \<times> nat \<times> nat \<Rightarrow> fs \<times> pystr \<Rightarrow> fs \<times> pystr" where
  "edit_step str_exc root response d st =
     (case d of (file_edit_start, file_path_end, file_edit_end) \<Rightarrow>
        (let file_path_str = strip (slice response (file_edit_start + 11) file_path_end);
             file_content = strip (slice response (file_path_end + 1) file_edit_end);
             full_path = joinpath root file_path_str;
             span = slice response file_edit_start (file_edit_end + 14)
         in case apply_edit (fst st) full_path file_content of
              (fs', None) \<Rightarrow> (fs', py_replace (snd st) span (applied_line file_path_str))
            | (fs', Some e) \<Rightarrow>
                (fs', py_replace (snd st) span (failed_line file_path_str (str_exc e)))))"

text \<open>
  The \<open>while\<close> loop, entered with a \<open>file_edit_start\<close> that is not \<open>-1\<close>. Every \<open>break\<close>
  returns the state. The loop ends since the next start lies behind the last one.
\<close>

function file_edit_loop ::
  "(exn \<Rightarrow> pystr) \<Rightarrow> path \<Rightarrow> pystr \<Rightarrow> nat \<Rightarrow> fs \<times> pystr \<Rightarrow> fs \<times> pystr" where
  "file_edit_loop str_exc root response file_edit_start st =
     (case py_find response [10] file_edit_start of
        None \<Rightarrow> st
      | Some file_path_end \<Rightarrow>
          (case py_find response END_FILE_EDIT file_path_end of
             None \<Rightarrow> st
           | Some file_edit_end \<Rightarrow>
               (case py_find response FILE_EDIT file_edit_end of
                  None \<Rightarrow>
                    edit_step str_exc root response
                      (file_edit_start, file_path_end, file_edit_end) st
                | Some next_start \<Rightarrow>
                    file_edit_loop str_exc root response next_start
                      (edit_step str_exc root response
                         (file_edit_start, file_path_end, file_edit_end) st))))"
  by pat_completeness auto

lemma find_in_prefix: "find_in sub s = Some i \<Longrightarrow> prefix sub (drop i s)"
proof (induction s arbitrary: i)
  case Nil
  then show ?case by (simp split: if_splits)
next
  case (Cons c cs)
  then show ?case
    by (auto split: if_splits)
qed

lemma py_find_SomeD:
  assumes "py_find s sub start = Some i"
  shows "start \<le> i" and "i + length sub \<le> length s" and "prefix sub (drop i s)"
proof -
  from assms obtain j where le: "start \<le> length s" and j: "find_in sub (drop start s) = Some j"
    and i: "i = start + j"
    by (auto simp: py_find_def split: if_splits)
  show "start \<le> i" using i by simp
  from find_in_le [OF j] le show "i + length sub \<le> length s"
    using i by simp
  from find_in_prefix [OF j] show "prefix sub (drop i s)"
    using i by (simp add: add.commute)
qed

lemma prefix_drop_nth:
  assumes "prefix (c # sub) (drop i s)"
  shows "i < length s" and "s ! i = c"
proof -
  from assms obtain zs where eq: "drop i s = c # sub @ zs"
    by (auto simp: prefix_def)
  then show "i < length s"
    by (cases "i < length s") simp_all
  with eq show "s ! i = c"
    by (metis nth_via_drop)
qed

lemma loop_progress:
  assumes nl: "py_find response [10] file_edit_start = Some file_path_end"
    and en: "py_find response END_FILE_EDIT file_path_end = Some file_edit_end"
    and nx: "py_find response FILE_EDIT file_edit_end = Some next_start"
  shows "length response - next_start < length response - file_edit_start"
proof -
  from py_find_SomeD [OF nl] have a: "file_edit_start \<le> file_path_end"
    and a': "response ! file_path_end = 10"
    by (simp_all add: prefix_drop_nth)
  from py_find_SomeD [OF en] have b: "file_path_end \<le> file_edit_end"
    and b': "response ! file_edit_end = 69"
    by (simp_all add: END_FILE_EDIT_def prefix_drop_nth)
  from a' b' have "file_path_end \<noteq> file_edit_end"
    by auto
  with a b have "file_edit_start < file_edit_end"
    by simp
  moreover from py_find_SomeD [OF nx] have "file_edit_end \<le> next_start"
    and "next_start + length FILE_EDIT \<le> length response"
    by simp_all
  ultimately show ?thesis
    by (simp add: FILE_EDIT_def)
qed

termination file_edit_loop
  by (relation "measure (\<lambda>(str_exc, root, response, file_edit_start, st).
                  length response - file_edit_start)")
     (simp_all add: loop_progress)

declare file_edit_loop.simps [simp del]

text \<open>
  \<open>_process_file_edits\<close> for the project \<open>root\<close>: the file system after the edits and the
  text it returns.
\<close>

definition process_file_edits ::
  "(exn \<Rightarrow> pystr) \<Rightarrow> path \<Rightarrow> fs \<Rightarrow> pystr \<Rightarrow> fs \<times> pystr" where
  "process_file_edits str_exc root fs response =
     (case py_find response FILE_EDIT 0 of
        None \<Rightarrow> (fs, response)
      | Some file_edit_start \<Rightarrow>
          file_edit_loop str_exc root response file_edit_start (fs, response))"

text \<open>
  The directives the loop of \<open>_process_file_edits\<close> consumes, as the triples
  \<open>(file_edit_start, file_path_end, file_edit_end)\<close> of its three indices: the same
  searches as \<open>file_edit_loop\<close>, without the effects.
\<close>

function scan_edits :: "pystr \<Rightarrow> nat \<Rightarrow> (nat \<times> nat \<times> nat) list" where
  "scan_edits response file_edit_start =
     (case py_find response [10] file_edit_start of
        None \<Rightarrow> []
      | Some file_path_end \<Rightarrow>
          (case py_find response END_FILE_EDIT file_path_end of
             None \<Rightarrow> []
           | Some file_edit_end \<Rightarrow>
               (file_edit_start, file_path_end, file_edit_end) #
               (case py_find response FILE_EDIT file_edit_end of
                  None \<Rightarrow> []
                | Some next_start \<Rightarrow> scan_edits response next_start)))"
  by pat_completeness auto

termination scan_edits
  by (relation "measure (\<lambda>(response, file_edit_start). length response - file_edit_start)")
     (simp_all add: loop_progress)

declare scan_edits.simps [simp del]

text \<open>The instruction of a directive: the path and the replacement content.\<close>

definition instruction :: "pystr \<Rightarrow> nat \<times> nat \<times> nat \<Rightarrow> pystr \<times> pystr" where
  "instruction response d =
     (case d of (file_edit_start, file_path_end, file_edit_end) \<Rightarrow>
        (strip (slice response (file_edit_start + 11) file_path_end),
         strip (slice response (file_path_end + 1) file_edit_end)))"

text \<open>The instructions of a response, in the order the loop applies them.\<close>

definition parse_edits :: "pystr \<Rightarrow> (pystr \<times> pystr) list" where
  "parse_edits response =
     (case py_find response FILE_EDIT 0 of
        None \<Rightarrow> []
      | Some file_edit_start \<Rightarrow>
          map (instruction response) (scan_edits response file_edit_start))"

section \<open>Materialising a project plan\<close>

text \<open>
  The plan as \<open>json.loads\<close> returns it. A key that the source reads with \<open>plan[key]\<close> is a
  field; a key that it reads with \<open>get\<close> may be missing (\<open>None\<close>). The key \<open>structure\<close> is
  the field \<open>structure'\<close>.
\<close>

record plan_item =
  item_path :: pystr
  item_type :: pystr
  item_content :: "pystr option"

record project_plan =
  project_name :: pystr
  description :: pystr
  technologies :: "pystr list option"
  dependencies :: "pystr list option"
  structure' :: "plan_item list"

text \<open>\<open>d.get(key, [])\<close> and \<open>d.get(key, '')\<close> on a key that may be missing.\<close>

definition get_or :: "'a option \<Rightarrow> 'a \<Rightarrow> 'a" where
  "get_or v dflt = (case v of None \<Rightarrow> dflt | Some x \<Rightarrow> x)"

text \<open>
  \<open>str.lower\<close> on the ASCII letters. The source compares the answer with \<open>'y'\<close> only,
  and no code point other than \<open>Y\<close> and \<open>y\<close> lowers to \<open>y\<close>.
\<close>

definition lower :: "pystr \<Rightarrow> pystr" where
  "lower s = map (\<lambda>c. if 65 \<le> c \<and> c \<le> 90 then c + 32 else c) s"

text \<open>
  What \<open>_create_project\<close> writes to \<open>README.md\<close> and to \<open>requirements.txt\<close>, one text for
  each call of \<open>write\<close>.
\<close>

definition readme_chunks :: "project_plan \<Rightarrow> pystr list" where
  "readme_chunks plan =
     [py ''# '' @ project_name plan @ [10, 10] @ description plan @ [10, 10],
      py ''## Technologies'' @ [10, 10]] @
     map (\<lambda>tech. py ''- '' @ tech @ [10]) (get_or (technologies plan) []) @
     [[10] @ py ''## Setup'' @ [10, 10]] @
     (if py ''python'' \<in> set (get_or (technologies plan) []) then
        [py ''```bash'' @ [10],
         py ''# Create virtual environment'' @ [10],
         py ''python -m venv venv'' @ [10],
         py ''source venv/bin/activate  # On Windows: venv'' @ [92] @ py ''Scripts'' @ [92] @
         py ''activate'' @ [10, 10],
         py ''# Install dependencies'' @ [10],
         py ''pip install -r requirements.txt'' @ [10],
         py ''```'' @ [10]]
      else [])"

definition requirements_chunks :: "project_plan \<Rightarrow> pystr list" where
  "requirements_chunks plan = map (\<lambda>dep. dep @ [10]) (get_or (dependencies plan) [])"

text \<open>The two files when every \<open>write\<close> has returned.\<close>

definition readme_text :: "project_plan \<Rightarrow> pystr" where
  "readme_text plan = concat (readme_chunks plan)"

definition requirements_text :: "project_plan \<Rightarrow> pystr" where
  "requirements_text plan = concat (requirements_chunks plan)"

text \<open>
  The loop over the entries. An entry whose type is neither \<open>directory\<close> nor \<open>file\<close> is
  skipped; an exception ends the loop, with the files written so far.
\<close>

fun create_items :: "fs \<Rightarrow> path \<Rightarrow> plan_item list \<Rightarrow> fs \<times> exn option" where
  "create_items fs project_path [] = (fs, None)"
| "create_items fs project_path (item # items) =
     (let full_path = joinpath project_path (item_path item) in
      if item_type item = py ''directory'' then
        (case mkdir_parents fs full_path of
           (fs1, Some e) \<Rightarrow> (fs1, Some e)
         | (fs1, None) \<Rightarrow> create_items fs1 project_path items)
      else if item_type item = py ''file'' then
        (case mkdir_parents fs (parent full_path) of
           (fs1, Some e) \<Rightarrow> (fs1, Some e)
         | (fs1, None) \<Rightarrow>
             (case write_file fs1 full_path [get_or (item_content item) []] of
                (fs2, Some e) \<Rightarrow> (fs2, Some e)
              | (fs2, None) \<Rightarrow> create_items fs2 project_path items))
      else create_items fs project_path items)"

text \<open>
  \<open>_create_project\<close>. \<open>confirm\<close> is the line the user answers to the overwrite question
  (asked only when the directory exists). The result is the file system with \<open>Inr None\<close>
  for the \<open>return None\<close> of a declined overwrite, \<open>Inr (Some project_path)\<close> for the
  returned path, and \<open>Inl e\<close> for an exception that leaves the function.
\<close>

definition create_project ::
  "path \<Rightarrow> fs \<Rightarrow> project_plan \<Rightarrow> pystr \<Rightarrow> fs \<times> (exn + path option)" where
  "create_project projects_dir fs plan confirm =
     (let project_path = joinpath projects_dir (project_name plan) in
      if path_exists fs project_path \<and> lower confirm \<noteq> py ''y'' then (fs, Inr None)
      else
        (case mkdir_parents fs project_path of
           (fs1, Some e) \<Rightarrow> (fs1, Inl e)
         | (fs1, None) \<Rightarrow>
             (case write_file fs1 (joinpath project_path (py ''README.md''))
                     (readme_chunks plan) of
                (fs2, Some e) \<Rightarrow> (fs2, Inl e)
              | (fs2, None) \<Rightarrow>
                  (case (if py ''python'' \<in> set (get_or (technologies plan) []) then
                           write_file fs2 (joinpath project_path (py ''requirements.txt''))
                             (requirements_chunks plan)
                         else (fs2, None)) of
                     (fs3, Some e) \<Rightarrow> (fs3, Inl e)
                   | (fs3, None) \<Rightarrow>
                       (case create_items fs3 project_path (structure' plan) of
                          (fs4, Some e) \<Rightarrow> (fs4, Inl e)
                        | (fs4, None) \<Rightarrow> (fs4, Inr (Some project_path)))))))"

section \<open>Inspecting an existing project\<close>

record project_context =
  current_project_path :: path
  current_project_name :: pystr
  current_project_technologies :: "pystr list"

text \<open>\<open>Path.resolve()\<close> without symbolic links: \<open>..\<close> is resolved lexically.\<close>

definition resolve :: "path \<Rightarrow> path" where
  "resolve p = foldl (\<lambda>cur c. if c = py ''..'' then butlast cur else cur @ [c]) [] p"

text \<open>\<open>Path.name\<close>: the last part, empty for the root.\<close>

definition name :: "path \<Rightarrow> pystr" where
  "name p = (if p = [] then [] else last p)"

text \<open>Iterating over an open text file gives its lines, each with its line feed.\<close>

fun readlines :: "pystr \<Rightarrow> pystr list" where
  "readlines [] = []"
| "readlines (c # cs) =
     (if c = 10 then [c] # readlines cs
      else (case readlines cs of [] \<Rightarrow> [[c]] | l # ls \<Rightarrow> (c # l) # ls))"

text \<open>The body of the loop over the lines of \<open>requirements.txt\<close>.\<close>

definition requirement_line :: "pystr list \<Rightarrow> pystr \<Rightarrow> pystr list" where
  "requirement_line techs line =
     (let dep = hd (py_split (hd (py_split (strip line) (py ''==''))) (py ''>=''))
      in if dep \<noteq> [] \<and> dep \<notin> set techs then techs @ [dep] else techs)"

definition package_dep :: "pystr list \<Rightarrow> pystr \<Rightarrow> pystr list" where
  "package_dep techs dep = (if dep \<notin> set techs then techs @ [dep] else techs)"

text \<open>
  \<open>_load_project_info\<close>. Two library calls are parameters: \<open>package_deps\<close> gives the keys
  of \<open>"dependencies"\<close> that \<open>json.load\<close> finds in the text of \<open>package.json\<close> (none when
  it raises, which the source swallows), and \<open>glob fs dir pat\<close> is
  \<open>list(dir.glob(pat))\<close>. \<open>None\<close> is the \<open>return False\<close>.
\<close>

definition load_project_info ::
  "(pystr \<Rightarrow> pystr list) \<Rightarrow> (fs \<Rightarrow> path \<Rightarrow> pystr \<Rightarrow> path list) \<Rightarrow> fs \<Rightarrow> path \<Rightarrow>
     project_context option" where
  "load_project_info package_deps glob fs given_path =
     (let project_path = resolve given_path in
      if \<not> path_exists fs project_path \<or> \<not> is_dir fs project_path then None
      else
        (let techs0 = [];
             techs1 =
               (if path_exists fs (joinpath project_path (py ''package.json'')) then
                  (case read_text fs (joinpath project_path (py ''package.json'')) of
                     None \<Rightarrow> techs0 @ [py ''javascript'', py ''node'']
                   | Some content \<Rightarrow>
                       foldl package_dep (techs0 @ [py ''javascript'', py ''node''])
                         (package_deps content))
                else techs0);
             techs2 =
               (if path_exists fs (joinpath project_path (py ''requirements.txt'')) then
                  (case read_text fs (joinpath project_path (py ''requirements.txt'')) of
                     None \<Rightarrow> techs1 @ [py ''python'']
                   | Some content \<Rightarrow>
                       foldl requirement_line (techs1 @ [py ''python''])
                         (readlines content))
                else techs1);
             techs3 =
               (if techs2 = [] then
                  (let py_files = glob fs project_path (py ''**/*.py'');
                       js_files = glob fs project_path (py ''**/*.js'');
                       t = (if py_files \<noteq> [] then [py ''python''] else []) @
                           (if js_files \<noteq> [] then [py ''javascript''] else [])
                   in if t = [] then [py ''unknown''] else t)
                else techs2)
         in Some \<lparr>current_project_path = project_path,
                  current_project_name = name project_path,
                  current_project_technologies = techs3\<rparr>))"

section \<open>Formatting for the terminal\<close>

record fmt_state =
  result :: "pystr list"
  in_code_block :: bool
  code_lines :: "pystr list"

text \<open>A line that toggles the code block: \<open>line.strip().startswith('```')\<close>.\<close>

definition is_fence :: "pystr \<Rightarrow> bool" where
  "is_fence line = prefix (py ''```'') (strip line)"

definition open_banner :: "pystr \<Rightarrow> pystr" where
  "open_banner line =
     (let lang = strip (drop 3 (strip line))
      in if lang \<noteq> [] then [10, 27] @ py ''[1m# '' @ lang @ py '' code:'' @ [27] @ py ''[0m''
         else [10, 27] @ py ''[1m# Code:'' @ [27] @ py ''[0m'')"

definition end_banner :: pystr where
  "end_banner = [27] @ py ''[1m# End of code'' @ [27] @ py ''[0m'' @ [10]"

text \<open>
  The body of the loop of \<open>_format_terminal_text\<close>; \<open>fill\<close> is
  \<open>textwrap.fill(line, width=80)\<close>.
\<close>

definition fmt_line :: "(pystr \<Rightarrow> pystr) \<Rightarrow> fmt_state \<Rightarrow> pystr \<Rightarrow> fmt_state" where
  "fmt_line fill st line =
     (if is_fence line then
        (if \<not> in_code_block st then
           st\<lparr>in_code_block := True, result := result st @ [open_banner line]\<rparr>
         else
           st\<lparr>in_code_block := False,
              result := result st @ [[10] @ py_join [10] (code_lines st), end_banner],
              code_lines := []\<rparr>)
      else if in_code_block st then st\<lparr>code_lines := code_lines st @ [line]\<rparr>
      else st\<lparr>result := result st @ [if strip line \<noteq> [] then fill line else line]\<rparr>)"

definition fmt_init :: fmt_state where
  "fmt_init = \<lparr>result = [], in_code_block = False, code_lines = []\<rparr>"

definition format_lines :: "(pystr \<Rightarrow> pystr) \<Rightarrow> pystr list \<Rightarrow> pystr" where
  "format_lines fill ls = py_join [10] (result (foldl (fmt_line fill) fmt_init ls))"

definition format_terminal_text :: "(pystr \<Rightarrow> pystr) \<Rightarrow> pystr \<Rightarrow> pystr" where
  "format_terminal_text fill text = format_lines fill (py_split text [10])"

section \<open>One round of the chat\<close>

datatype role = System | User | Assistant

record message =
  role :: role
  content :: pystr

text \<open>
  What a round reads and changes: the files, the path of the current project and the
  history \<open>self.messages\<close>.
\<close>

record session =
  files :: fs
  project :: path
  messages :: "message list"

text \<open>
  The body of the loop of \<open>chat_mode\<close> for an input that is no special command.
  \<open>reply\<close> is what the completion call gives: the response text, or \<open>Inl e\<close> when the call
  raises. The second component is the text that is printed.
\<close>

definition chat_round ::
  "(exn \<Rightarrow> pystr) \<Rightarrow> (pystr \<Rightarrow> pystr) \<Rightarrow> session \<Rightarrow> pystr \<Rightarrow> pystr + pystr \<Rightarrow>
     session \<times> pystr" where
  "chat_round str_exc fill s user_input reply =
     (let s1 = s\<lparr>messages := messages s @ [\<lparr>role = User, content = user_input\<rparr>]\<rparr> in
      case reply of
        Inl e \<Rightarrow> (s1, py ''Error getting response: '' @ e)
      | Inr assistant_response \<Rightarrow>
          (case process_file_edits str_exc (project s1) (files s1) assistant_response of
             (fs', edited_response) \<Rightarrow>
               (s1\<lparr>files := fs',
                   messages := messages s1 @
                     [\<lparr>role = Assistant, content = assistant_response\<rparr>]\<rparr>,
                format_terminal_text fill edited_response)))"

section \<open>Markers and directives in a text\<close>

text \<open>
  A marker is unbordered when no proper suffix of it is a prefix of it: two occurrences
  of it cannot overlap.
\<close>

definition unbordered :: "pystr \<Rightarrow> bool" where
  "unbordered m \<longleftrightarrow> (\<forall>d \<in> {1..<length m}. drop d m \<noteq> take (length m - d) m)"

text \<open>
  A directive as the system prompt asks for it: the marker \<open>FILE_EDIT: \<close>, the path up
  to the end of the line, the content, the marker \<open>END_FILE_EDIT\<close>. It is well formed
  when the path is on one line and the content holds no end marker.
\<close>

definition directive :: "pystr \<Rightarrow> pystr \<Rightarrow> pystr" where
  "directive p b = FILE_EDIT @ p @ [10] @ b @ END_FILE_EDIT"

definition well_formed :: "pystr \<Rightarrow> pystr \<Rightarrow> bool" where
  "well_formed p b \<longleftrightarrow> 10 \<notin> set p \<and> \<not> sublist END_FILE_EDIT b"

text \<open>The directives the loop consumes, from the first marker on.\<close>

definition scanned :: "pystr \<Rightarrow> (nat \<times> nat \<times> nat) list" where
  "scanned response =
     (case py_find response FILE_EDIT 0 of
        None \<Rightarrow> []
      | Some file_edit_start \<Rightarrow> scan_edits response file_edit_start)"

section \<open>Example inputs\<close>

text \<open>
  A file system with the projects directory \<open>/projects\<close> and in it the project \<open>demo\<close>,
  which holds one file.
\<close>

definition demo_fs :: fs where
  "demo_fs =
     [[] \<mapsto> Dir,
      [py ''projects''] \<mapsto> Dir,
      [py ''projects'', py ''demo''] \<mapsto> Dir,
      [py ''projects'', py ''demo'', py ''app.py''] \<mapsto> File (py ''print(1)'')]"

definition demo_plan :: project_plan where
  "demo_plan =
     \<lparr>project_name = py ''demo'', description = py ''d'',
      technologies = Some [py ''python''], dependencies = Some [py ''flask''],
      structure' = [\<lparr>item_path = py ''app.py'', item_type = py ''file'',
                      item_content = Some (py ''print(2)'')\<rparr>]\<rparr>"

text \<open>The manifest with the two lines \<open>flask==2.0.1\<close> and \<open>requests>=2.0\<close>.\<close>

definition manifest :: pystr where
  "manifest = py ''flask==2.0.1'' @ [10] @ py ''requests>=2.0'' @ [10]"

text \<open>A project directory that holds the manifest and nothing else.\<close>

definition manifest_fs :: fs where
  "manifest_fs =
     [[] \<mapsto> Dir,
      [py ''work''] \<mapsto> Dir,
      [py ''work'', py ''requirements.txt''] \<mapsto> File manifest]"

text \<open>
  A response with two directives: the first for \<open>app.py/x\<close>, below a regular file of the
  project \<open>demo\<close>, the second for \<open>b.py\<close>.
\<close>

definition failing_batch :: pystr where
  "failing_batch =
     directive (py ''app.py/x'') (py ''1'' @ [10]) @ [10] @
     directive (py ''b.py'') (py ''y'' @ [10]) @ [10]"

text \<open>A plan whose first entry is a file named \<open>README.md\<close>.\<close>

definition readme_plan :: project_plan where
  "readme_plan =
     \<lparr>project_name = py ''new'', description = py ''d'',
      technologies = Some [py ''python''], dependencies = Some [py ''flask''],
      structure' =
        [\<lparr>item_path = py ''README.md'', item_type = py ''file'',
          item_content = Some (py ''mine'')\<rparr>,
         \<lparr>item_path = py ''src'', item_type = py ''directory'', item_content = None\<rparr>,
         \<lparr>item_path = py ''src/app.py'', item_type = py ''file'',
          item_content = Some (py ''print(1)'')\<rparr>]\<rparr>"

lemmas path_simps = joinpath_def path_parts_def py_split.simps parent_def

lemmas exec_simps =
  apply_edit_def mkdir_parents.simps mkdir_exist_ok_def os_mkdir_def is_dir_def path_exists_def
  open_w_def write_file_def read_file_def read_text_def bad_path_def surrogate_def encodable_def

section \<open>The formatter at the end of the text\<close>

lemma in_code_block_stays:
  assumes "in_code_block st" and "\<forall>l\<in>set ls. \<not> is_fence l"
  shows "result (foldl (fmt_line fill) st ls) = result st"
  using assms
proof (induction ls arbitrary: st)
  case Nil
  then show ?case by simp
next
  case (Cons l ls)
  have "in_code_block (fmt_line fill st l)" and "result (fmt_line fill st l) = result st"
    using Cons.prems by (simp_all add: fmt_line_def)
  with Cons.IH [of "fmt_line fill st l"] Cons.prems show ?case
    by simp
qed

lemma in_code_block_parity:
  "in_code_block (foldl (fmt_line fill) st ls) =
     (in_code_block st \<noteq> odd (length (filter is_fence ls)))"
proof (induction ls arbitrary: st)
  case Nil
  then show ?case by simp
next
  case (Cons l ls)
  show ?case
    by (simp add: Cons.IH) (auto simp: fmt_line_def)
qed

text \<open>
  C9. When the lines of the text end inside a code block (after \<open>pre\<close>, which has an even
  number of fence lines, comes the fence line \<open>fence\<close> and then only lines that are no
  fence), the formatted text is what the lines up to the opening fence give, ending with
  the banner of the opening fence: the lines \<open>code\<close> collected after it are not in the
  output, and no end banner is.
\<close>

theorem unclosed_fence_drops_code:
  assumes "py_split text [10] = pre @ fence # code"
    and "is_fence fence"
    and "even (length (filter is_fence pre))"
    and "\<forall>l\<in>set code. \<not> is_fence l"
  shows "format_terminal_text fill text =
           py_join [10] (result (foldl (fmt_line fill) fmt_init pre) @ [open_banner fence]) \<and>
         format_terminal_text fill text = format_lines fill (pre @ [fence])"
proof -
  let ?st = "foldl (fmt_line fill) fmt_init pre"
  have "\<not> in_code_block ?st"
    using assms(3) by (simp add: in_code_block_parity fmt_init_def)
  then have opened: "in_code_block (fmt_line fill ?st fence)"
    and res: "result (fmt_line fill ?st fence) = result ?st @ [open_banner fence]"
    using assms(2) by (simp_all add: fmt_line_def)
  have "result (foldl (fmt_line fill) fmt_init (pre @ fence # code)) =
          result (fmt_line fill ?st fence)"
    using in_code_block_stays [OF opened assms(4)] by simp
  with res show ?thesis
    by (simp add: format_terminal_text_def format_lines_def assms(1))
qed

theorem unclosed_fence_drops_code_witness:
  "format_terminal_text (\<lambda>l. l) (py ''a'' @ [10] @ py ''```sh'' @ [10] @ py ''ls'' @ [10] @ py ''pwd'') =
     py ''a'' @ [10, 10, 27] @ py ''[1m# sh code:'' @ [27] @ py ''[0m''"
proof -
  have "py_split (py ''a'' @ [10] @ py ''```sh'' @ [10] @ py ''ls'' @ [10] @ py ''pwd'') [10] =
          [py ''a''] @ py ''```sh'' # [py ''ls'', py ''pwd'']"
    by (simp add: py_split.simps)
  from unclosed_fence_drops_code [OF this, of "\<lambda>l. l"] show ?thesis
    by (simp add: is_fence_def strip_def isspace_def fmt_init_def fmt_line_def open_banner_def)
qed

section \<open>Declining to overwrite a project\<close>

text \<open>
  C4. When the project directory exists and the answer to the overwrite question is not
  \<open>y\<close>, \<open>_create_project\<close> returns \<open>None\<close> and the file system is the one it was given.
\<close>

theorem declined_overwrite_writes_nothing:
  assumes "path_exists fs (joinpath projects_dir (project_name plan))"
    and "lower confirm \<noteq> py ''y''"
  shows "create_project projects_dir fs plan confirm = (fs, Inr None)"
  using assms by (simp add: create_project_def)

theorem declined_overwrite_writes_nothing_witness:
  "create_project [py ''projects''] demo_fs demo_plan (py ''n'') = (demo_fs, Inr None)"
proof -
  have "path_exists demo_fs (joinpath [py ''projects''] (project_name demo_plan))"
    by (simp add: path_simps demo_plan_def demo_fs_def exec_simps)
  moreover have "lower (py ''n'') \<noteq> py ''y''"
    by (simp add: lower_def)
  ultimately show ?thesis
    by (rule declined_overwrite_writes_nothing)
qed

section \<open>The history of a chat round\<close>

text \<open>
  C10. A round with the response \<open>assistant_response\<close> appends to the history the user
  message and then the assistant message with the response as it was received; the text
  with the directives replaced, formatted, is only what is printed.
\<close>

theorem history_keeps_original_response:
  "messages (fst (chat_round str_exc fill s user_input (Inr assistant_response))) =
     messages s @ [\<lparr>role = User, content = user_input\<rparr>,
                   \<lparr>role = Assistant, content = assistant_response\<rparr>] \<and>
   snd (chat_round str_exc fill s user_input (Inr assistant_response)) =
     format_terminal_text fill
       (snd (process_file_edits str_exc (project s) (files s) assistant_response))"
  by (simp add: chat_round_def split: prod.splits)

theorem history_keeps_original_response_witness:
  "messages (fst (chat_round (\<lambda>e. []) (\<lambda>l. l)
       \<lparr>files = demo_fs, project = [py ''projects'', py ''demo''], messages = []\<rparr>
       (py ''fix it'')
       (Inr (py ''FILE_EDIT: app.py'' @ [10] @ py ''print(3)'' @ [10] @ py ''END_FILE_EDIT'')))) =
     [\<lparr>role = User, content = py ''fix it''\<rparr>,
      \<lparr>role = Assistant,
       content = py ''FILE_EDIT: app.py'' @ [10] @ py ''print(3)'' @ [10] @ py ''END_FILE_EDIT''\<rparr>]"
  using history_keeps_original_response
    [of "\<lambda>e. []" "\<lambda>l. l"
        "\<lparr>files = demo_fs, project = [py ''projects'', py ''demo''], messages = []\<rparr>"
        "py ''fix it''"
        "py ''FILE_EDIT: app.py'' @ [10] @ py ''print(3)'' @ [10] @ py ''END_FILE_EDIT''"]
  by simp

section \<open>The technologies of a Python manifest\<close>

lemma requirement_line_distinct:
  "distinct techs \<Longrightarrow> distinct (requirement_line techs line)"
  by (simp add: requirement_line_def Let_def)

lemma requirements_distinct:
  "distinct techs \<Longrightarrow> distinct (foldl requirement_line techs ls)"
  by (induction ls arbitrary: techs) (simp_all add: requirement_line_distinct)

lemma requirements_nonempty:
  "techs \<noteq> [] \<Longrightarrow> foldl requirement_line techs ls \<noteq> []"
  by (induction ls arbitrary: techs) (simp_all add: requirement_line_def Let_def)

lemma manifest_lines:
  "readlines (universal_newlines manifest) = [py ''flask==2.0.1'' @ [10], py ''requests>=2.0'' @ [10]]"
  by (simp add: manifest_def)

lemma manifest_technologies:
  "foldl requirement_line [py ''python''] (readlines (universal_newlines manifest)) =
     [py ''python'', py ''flask'', py ''requests'']"
  unfolding manifest_lines
  by (simp add: requirement_line_def strip_def isspace_def py_split.simps)

lemma is_dir_exists: "is_dir fs p \<Longrightarrow> path_exists fs p"
  by (auto simp: is_dir_def path_exists_def split: sum.splits if_splits)

lemma read_file_exists: "read_file fs p = Some c \<Longrightarrow> path_exists fs p"
  by (auto simp: read_file_def path_exists_def split: sum.splits option.splits if_splits)

text \<open>
  C7. For a project directory without \<open>package.json\<close> whose \<open>requirements.txt\<close> can be
  read, \<open>_load_project_info\<close> succeeds and the technologies it infers have no duplicate;
  when the manifest lists \<open>flask==2.0.1\<close> and \<open>requests>=2.0\<close>, they are \<open>python\<close>,
  \<open>flask\<close> and \<open>requests\<close>: each name cut at its \<open>==\<close> or \<open>>=\<close>.
\<close>

theorem inspect_requirements:
  assumes "is_dir fs (resolve given_path)"
    and "\<not> path_exists fs (joinpath (resolve given_path) (py ''package.json''))"
    and "read_file fs (joinpath (resolve given_path) (py ''requirements.txt'')) = Some body"
  shows "\<exists>ctx. load_project_info package_deps glob fs given_path = Some ctx \<and>
           distinct (current_project_technologies ctx) \<and>
           (body = manifest \<longrightarrow>
              current_project_technologies ctx = [py ''python'', py ''flask'', py ''requests''])"
proof -
  let ?techs = "foldl requirement_line [py ''python''] (readlines (universal_newlines body))"
  have ne: "?techs \<noteq> []"
    by (rule requirements_nonempty) simp
  have "load_project_info package_deps glob fs given_path =
          Some \<lparr>current_project_path = resolve given_path,
                current_project_name = name (resolve given_path),
                current_project_technologies = ?techs\<rparr>"
    using assms ne is_dir_exists [OF assms(1)] read_file_exists [OF assms(3)]
    by (simp add: load_project_info_def read_text_def Let_def)
  moreover have "distinct ?techs"
    by (rule requirements_distinct) simp
  ultimately show ?thesis
    using manifest_technologies by simp
qed

theorem inspect_requirements_witness:
  "map_option current_project_technologies
     (load_project_info (\<lambda>c. []) (\<lambda>fs p pat. []) manifest_fs [py ''work'']) =
     Some [py ''python'', py ''flask'', py ''requests'']"
proof -
  have "is_dir manifest_fs (resolve [py ''work''])"
    by (simp add: exec_simps resolve_def manifest_fs_def)
  moreover have "\<not> path_exists manifest_fs (joinpath (resolve [py ''work'']) (py ''package.json''))"
    by (simp add: exec_simps resolve_def manifest_fs_def joinpath_def path_parts_def
        py_split.simps)
  moreover have "read_file manifest_fs (joinpath (resolve [py ''work'']) (py ''requirements.txt'')) =
      Some manifest"
    by (simp add: exec_simps resolve_def manifest_fs_def joinpath_def path_parts_def
        py_split.simps)
  ultimately show ?thesis
    using inspect_requirements [of manifest_fs "[py ''work'']" manifest "\<lambda>c. []" "\<lambda>fs p pat. []"]
    by auto
qed

section \<open>Properties of the file system operations\<close>

text \<open>Resolution only reads directories: it is unchanged when all of them stay.\<close>

lemma walk_mono:
  assumes "\<And>x. fs x = Some Dir \<Longrightarrow> fs' x = Some Dir"
    and "walk fs cur p = Inr t"
  shows "walk fs' cur p = Inr t"
  using assms(2)
proof (induction p arbitrary: cur)
  case Nil
  then show ?case by simp
next
  case (Cons c cs)
  from Cons.prems have dir: "fs cur = Some Dir"
    by (simp split: option.splits node.splits)
  then have "fs' cur = Some Dir"
    by (rule assms(1))
  with Cons dir show ?case
    by (simp split: if_splits)
qed

lemma walk_append:
  "walk fs cur (a @ b) = (case walk fs cur a of Inl e \<Rightarrow> Inl e | Inr t \<Rightarrow> walk fs t b)"
  by (induction a arbitrary: cur) (simp_all split: option.splits node.splits)

lemma is_dir_mono:
  assumes "\<And>x. fs x = Some Dir \<Longrightarrow> fs' x = Some Dir" and "is_dir fs p"
  shows "is_dir fs' p"
proof -
  from assms(2) obtain t where "walk fs [] p = Inr t" and "fs t = Some Dir"
    and "\<not> bad_path p"
    by (auto simp: is_dir_def split: sum.splits if_splits)
  then show ?thesis
    using walk_mono [of fs fs' "[]" p t] assms(1) by (simp add: is_dir_def)
qed

lemma os_mkdir_is_dir:
  assumes "os_mkdir fs p = Inr fs'"
  shows "is_dir fs' p"
proof -
  from assms obtain t where w: "walk fs [] p = Inr t" and new: "fs t = None"
    and fs': "fs' = fs(t \<mapsto> Dir)" and ok: "\<not> bad_path p"
    by (auto simp: os_mkdir_def split: sum.splits if_splits)
  have "walk fs' [] p = Inr t"
    by (rule walk_mono [OF _ w]) (simp add: fs')
  then show ?thesis
    using ok by (simp add: is_dir_def fs')
qed

lemma mkdir_exist_ok_is_dir:
  assumes "mkdir_exist_ok fs p = (fs', None)"
  shows "is_dir fs' p"
  using assms
  by (auto simp: mkdir_exist_ok_def os_mkdir_is_dir split: sum.splits if_splits exn.splits)

lemma mkdir_parents_is_dir:
  "mkdir_parents fs p = (fs', None) \<Longrightarrow> is_dir fs' p"
proof (induction fs p arbitrary: fs' rule: mkdir_parents.induct)
  case (1 fs p)
  show ?case
  proof (cases "os_mkdir fs p")
    case (Inr fs1)
    with "1.prems" show ?thesis
      by (simp add: mkdir_parents.simps [of fs p] os_mkdir_is_dir)
  next
    case (Inl err)
    with "1.prems" obtain e q where err: "os_mkdir fs p = Inl (OSError e q)"
      by (cases err) (simp_all add: mkdir_parents.simps [of fs p])
    show ?thesis
    proof (cases "e = ENOENT")
      case False
      with err "1.prems" show ?thesis
        by (simp add: mkdir_parents.simps [of fs p] split: if_splits)
    next
      case True
      with err "1.prems" obtain fs1 where "parent p \<noteq> p"
        and "mkdir_parents fs (parent p) = (fs1, None)"
        and "mkdir_exist_ok fs1 p = (fs', None)"
        by (auto simp: mkdir_parents.simps [of fs p] split: if_splits prod.splits option.splits)
      then show ?thesis
        by (simp add: mkdir_exist_ok_is_dir)
    qed
  qed
qed

lemma mkdir_parents_of_dir:
  assumes "is_dir fs p"
  shows "mkdir_parents fs p = (fs, None)"
proof -
  from assms obtain t where "walk fs [] p = Inr t" and "fs t = Some Dir"
    and "\<not> bad_path p"
    by (auto simp: is_dir_def split: sum.splits if_splits)
  then have "os_mkdir fs p = Inl (OSError EEXIST p)"
    by (simp add: os_mkdir_def)
  with assms show ?thesis
    by (simp add: mkdir_parents.simps [of fs p])
qed

lemma open_w_result:
  assumes "open_w fs p = Inr (fs', t)"
  shows "walk fs [] p = Inr t \<and> fs t \<noteq> Some Dir \<and> fs' = fs(t \<mapsto> File []) \<and> \<not> bad_path p"
  using assms
  by (auto simp: open_w_def split: sum.splits option.splits node.splits if_splits)

lemma write_all_result:
  "write_all chunks written = (w, None) \<Longrightarrow> w = written @ concat chunks"
proof (induction chunks arbitrary: written)
  case Nil
  then show ?case by simp
next
  case (Cons chunk chunks)
  from Cons.prems have "write_all chunks (written @ chunk) = (w, None)"
    by (simp split: if_splits)
  from Cons.IH [OF this] show ?case
    by simp
qed

lemma write_all_encodable:
  "list_all encodable chunks \<Longrightarrow> write_all chunks written = (written @ concat chunks, None)"
  by (induction chunks arbitrary: written) auto

text \<open>
  What \<open>write_file\<close> does when the file can be opened: the file holds what the calls of
  \<open>write\<close> wrote before the first one that raised.
\<close>

lemma write_file_cases:
  assumes "write_file fs p chunks = (fs', r)"
  obtains (closed) e where "open_w fs p = Inl e" and "fs' = fs" and "r = Some e"
  | (opened) t w where "walk fs [] p = Inr t" and "fs t \<noteq> Some Dir" and "\<not> bad_path p"
      and "write_all chunks [] = (w, r)" and "fs' = fs(t \<mapsto> File w)"
proof (cases "open_w fs p")
  case (Inl e)
  with assms have "fs' = fs" and "r = Some e"
    by (simp_all add: write_file_def)
  with Inl show ?thesis
    by (rule closed)
next
  case (Inr res)
  obtain fs1 t where res: "res = (fs1, t)"
    by (cases res)
  obtain w r' where wa: "write_all chunks [] = (w, r')"
    by (cases "write_all chunks []")
  from Inr res open_w_result [of fs p fs1 t]
  have w: "walk fs [] p = Inr t" and nd: "fs t \<noteq> Some Dir" and fs1: "fs1 = fs(t \<mapsto> File [])"
    and ok: "\<not> bad_path p"
    by simp_all
  from assms Inr res wa fs1
  have "write_all chunks [] = (w, r)" and "fs' = fs(t \<mapsto> File w)"
    by (simp_all add: write_file_def)
  with w nd ok show ?thesis
    by (rule opened)
qed

lemma write_file_result:
  assumes "write_file fs p chunks = (fs', None)"
  obtains t where "walk fs [] p = Inr t" and "fs t \<noteq> Some Dir" and "\<not> bad_path p"
    and "fs' = fs(t \<mapsto> File (concat chunks))"
  using assms
proof (cases rule: write_file_cases)
  case (closed e)
  then show ?thesis by simp
next
  case (opened t w)
  from write_all_result [OF opened(4)] have "w = concat chunks"
    by simp
  with opened that show ?thesis
    by simp
qed

text \<open>Writing the same texts to the same file again changes nothing more.\<close>

lemma write_file_again:
  assumes "write_file fs p chunks = (fs', r)"
  shows "\<exists>r'. write_file fs' p chunks = (fs', r') \<and> (r' = None \<longleftrightarrow> r = None)"
  using assms
proof (cases rule: write_file_cases)
  case (closed e)
  then show ?thesis
    by (simp add: write_file_def)
next
  case (opened t w)
  have "walk fs' [] p = Inr t"
    by (rule walk_mono [OF _ opened(1)]) (use opened in auto)
  then have "open_w fs' p = Inr (fs'(t \<mapsto> File []), t)"
    using opened by (simp add: open_w_def)
  then have "write_file fs' p chunks = (fs', r)"
    using opened by (auto simp: write_file_def)
  then show ?thesis
    by simp
qed

lemma file_update_keeps_dirs:
  "fs t \<noteq> Some Dir \<Longrightarrow> fs x = Some Dir \<Longrightarrow> (fs(t \<mapsto> File c)) x = Some Dir"
  by auto

lemma bad_path_parent: "bad_path (parent p) \<Longrightarrow> bad_path p"
  by (cases p rule: rev_cases) (auto simp: parent_def bad_path_def)

lemma walk_parent_is_dir:
  assumes "walk fs [] p = Inr t" and "\<not> bad_path p" and "parent p \<noteq> p"
  shows "is_dir fs (parent p)"
proof -
  from assms(3) obtain q c where p: "p = q @ [c]"
    by (cases p rule: rev_cases) (simp_all add: parent_def)
  with assms(1) obtain t' where "walk fs [] q = Inr t'" and "walk fs t' [c] = Inr t"
    by (auto simp: walk_append split: sum.splits)
  moreover have "\<not> bad_path q"
    using assms(2) bad_path_parent [of p] by (auto simp: parent_def p)
  ultimately show ?thesis
    by (simp add: is_dir_def parent_def p split: option.splits node.splits)
qed

lemma is_dir_parent:
  assumes "is_dir fs p" and "parent p \<noteq> p"
  shows "is_dir fs (parent p)"
proof -
  from assms(1) obtain t where "walk fs [] p = Inr t"
    and "\<not> bad_path p"
    by (auto simp: is_dir_def split: sum.splits if_splits)
  then show ?thesis
    using assms(2) by (rule walk_parent_is_dir)
qed

lemma os_mkdir_parent_is_dir:
  assumes "os_mkdir fs p = Inr fs'" and "parent p \<noteq> p"
  shows "is_dir fs (parent p)"
proof -
  from assms(1) obtain t where "walk fs [] p = Inr t" and "\<not> bad_path p"
    by (auto simp: os_mkdir_def split: sum.splits if_splits)
  then show ?thesis
    using assms(2) by (rule walk_parent_is_dir)
qed

lemma mkdir_exist_ok_error:
  "mkdir_exist_ok fs p = (fs', Some e) \<Longrightarrow> fs' = fs"
  by (auto simp: mkdir_exist_ok_def split: sum.splits if_splits exn.splits)

text \<open>A \<open>mkdir\<close> that raised raises again, and makes no further directory.\<close>

lemma mkdir_parents_fails_again:
  "mkdir_parents fs p = (fs', Some e) \<Longrightarrow> \<exists>e'. mkdir_parents fs' p = (fs', Some e')"
proof (induction fs p arbitrary: fs' e rule: mkdir_parents.induct)
  case (1 fs p)
  from "1.prems" obtain x where err0: "os_mkdir fs p = Inl x"
    by (cases "os_mkdir fs p") (auto simp: mkdir_parents.simps [of fs p])
  show ?case
  proof (cases "\<exists>q. x = OSError ENOENT q \<and> parent p \<noteq> p")
    case False
    with err0 "1.prems" have "fs' = fs"
      by (auto simp: mkdir_parents.simps [of fs p] split: if_splits exn.splits)
    with "1.prems" show ?thesis
      by simp
  next
    case True
    then obtain e0 q where x: "x = OSError e0 q" and True: "e0 = ENOENT \<and> parent p \<noteq> p"
      by auto
    from err0 x have err: "os_mkdir fs p = Inl (OSError e0 q)"
      by simp
    show ?thesis
    proof (cases "mkdir_parents fs (parent p)")
      case (Pair fs1 r)
      show ?thesis
      proof (cases r)
        case None
        with Pair err True "1.prems" have ex: "mkdir_exist_ok fs1 p = (fs', Some e)"
          by (simp add: mkdir_parents.simps [of fs p])
        then have eq: "fs' = fs1"
          by (rule mkdir_exist_ok_error)
        from Pair None have "is_dir fs1 (parent p)"
          by (simp add: mkdir_parents_is_dir)
        then have again: "mkdir_parents fs1 (parent p) = (fs1, None)"
          by (rule mkdir_parents_of_dir)
        from ex eq have ex1: "mkdir_exist_ok fs1 p = (fs1, Some e)"
          by simp
        then obtain x1 where x1: "os_mkdir fs1 p = Inl x1"
          by (cases "os_mkdir fs1 p") (auto simp: mkdir_exist_ok_def)
        have "\<exists>e'. mkdir_parents fs1 p = (fs1, Some e')"
        proof (cases x1)
          case (OSError e1 q1)
          show ?thesis
          proof (cases "e1 = ENOENT")
            case enoent: True
            with x1 OSError again True ex1 show ?thesis
              by (simp add: mkdir_parents.simps [of fs1 p])
          next
            case False
            with x1 OSError ex1 show ?thesis
              by (auto simp: mkdir_parents.simps [of fs1 p] mkdir_exist_ok_def split: if_splits)
          qed
        next
          case (ValueError q1)
          with x1 show ?thesis
            by (simp add: mkdir_parents.simps [of fs1 p])
        next
          case (UnicodeEncodeError q1)
          with x1 show ?thesis
            by (simp add: mkdir_parents.simps [of fs1 p])
        qed
        then show ?thesis
          by (simp add: eq)
      next
        case (Some err1)
        with Pair err True "1.prems" have eq: "fs' = fs1"
          by (simp add: mkdir_parents.simps [of fs p])
        have "\<exists>e'. mkdir_parents fs1 (parent p) = (fs1, Some e')"
          using "1.IH" [OF err] Pair Some True by fastforce
        then obtain e' where again: "mkdir_parents fs1 (parent p) = (fs1, Some e')"
          by blast
        then have nd: "\<not> is_dir fs1 (parent p)"
          using mkdir_parents_of_dir [of fs1 "parent p"] by auto
        show ?thesis
        proof (cases "os_mkdir fs1 p")
          case (Inr fs2)
          with nd True show ?thesis
            using os_mkdir_parent_is_dir by blast
        next
          case (Inl err2)
          moreover have "\<not> is_dir fs1 p"
            using nd True is_dir_parent by blast
          ultimately show ?thesis
            using again True
            by (auto simp: mkdir_parents.simps [of fs1 p] eq split: exn.splits)
        qed
      qed
    qed
  qed
qed

lemma universal_newlines_id: "13 \<notin> set s \<Longrightarrow> universal_newlines s = s"
  by (induction s rule: universal_newlines.induct) auto

text \<open>
  C6. When the edit of \<open>file_path_str\<close> with \<open>file_content\<close> is applied (no exception is
  raised), the file holds exactly \<open>file_content\<close>, which may be empty. A read of the file
  as text gives it with the line ends translated, which is \<open>file_content\<close> itself when it
  has no carriage return. Applying the same edit a second time leaves the file system as
  the first application left it, and it is applied the second time exactly when it was the
  first time.
\<close>

theorem edit_round_trip:
  fixes fs :: fs and root :: path and file_path_str file_content :: pystr
  defines "once \<equiv> apply_edit fs (joinpath root file_path_str) file_content"
  defines "twice \<equiv> apply_edit (fst once) (joinpath root file_path_str) file_content"
  shows "(snd once = None \<longrightarrow>
            read_file (fst once) (joinpath root file_path_str) = Some file_content \<and>
            read_text (fst once) (joinpath root file_path_str) =
              Some (universal_newlines file_content) \<and>
            (13 \<notin> set file_content \<longrightarrow>
               read_text (fst once) (joinpath root file_path_str) = Some file_content)) \<and>
         fst twice = fst once \<and> (snd twice = None \<longleftrightarrow> snd once = None)"
proof -
  let ?p = "joinpath root file_path_str"
  obtain fs1 r1 where mk: "mkdir_parents fs (parent ?p) = (fs1, r1)"
    by (cases "mkdir_parents fs (parent ?p)")
  show ?thesis
  proof (cases r1)
    case (Some e)
    with mk have o: "once = (fs1, Some e)"
      by (simp add: once_def apply_edit_def)
    from mk Some obtain e' where "mkdir_parents fs1 (parent ?p) = (fs1, Some e')"
      using mkdir_parents_fails_again by blast
    then have "twice = (fs1, Some e')"
      by (simp add: twice_def o apply_edit_def)
    with o show ?thesis
      by simp
  next
    case None
    with mk have dir: "is_dir fs1 (parent ?p)"
      by (simp add: mkdir_parents_is_dir)
    obtain fs' r where wf: "write_file fs1 ?p [file_content] = (fs', r)"
      by (cases "write_file fs1 ?p [file_content]")
    with mk None have o: "once = (fs', r)"
      by (simp add: once_def apply_edit_def)
    from wf show ?thesis
    proof (cases rule: write_file_cases)
      case (closed e)
      with wf dir have "twice = (fs1, Some e)"
        by (simp add: twice_def o apply_edit_def mkdir_parents_of_dir)
      with o closed show ?thesis
        by simp
    next
      case (opened t w)
      have keep: "\<And>x. fs1 x = Some Dir \<Longrightarrow> fs' x = Some Dir"
        using opened by auto
      have w': "walk fs' [] ?p = Inr t"
        by (rule walk_mono [OF keep opened(1)])
      have "is_dir fs' (parent ?p)"
        by (rule is_dir_mono [OF keep dir])
      then have "mkdir_parents fs' (parent ?p) = (fs', None)"
        by (rule mkdir_parents_of_dir)
      moreover from write_file_again [OF wf] obtain r'
        where "write_file fs' ?p [file_content] = (fs', r')" and same: "r' = None \<longleftrightarrow> r = None"
        by blast
      ultimately have t: "twice = (fs', r')"
        by (simp add: twice_def o apply_edit_def)
      have rd: "read_file fs' ?p = Some file_content" if "r = None"
      proof -
        from that opened(4) have "w = file_content"
          using write_all_result [of "[file_content]" "[]" w] by simp
        with w' opened show ?thesis
          by (simp add: read_file_def)
      qed
      from o t same rd show ?thesis
        by (simp add: read_text_def universal_newlines_id)
    qed
  qed
qed

theorem edit_round_trip_witness:
  "snd (apply_edit demo_fs (joinpath [py ''projects'', py ''demo''] (py ''src/main.py''))
          (py ''print(1)'')) = None \<and>
   read_file
     (fst (apply_edit demo_fs (joinpath [py ''projects'', py ''demo''] (py ''src/main.py''))
             (py ''print(1)'')))
     (joinpath [py ''projects'', py ''demo''] (py ''src/main.py'')) = Some (py ''print(1)'') \<and>
   read_text
     (fst (apply_edit demo_fs (joinpath [py ''projects'', py ''demo''] (py ''src/main.py''))
             (py ''print(1)'')))
     (joinpath [py ''projects'', py ''demo''] (py ''src/main.py'')) = Some (py ''print(1)'') \<and>
   fst (apply_edit
          (fst (apply_edit demo_fs (joinpath [py ''projects'', py ''demo''] (py ''src/main.py''))
                  (py ''print(1)'')))
          (joinpath [py ''projects'', py ''demo''] (py ''src/main.py'')) (py ''print(1)'')) =
     fst (apply_edit demo_fs (joinpath [py ''projects'', py ''demo''] (py ''src/main.py''))
            (py ''print(1)'')) \<and>
   snd (apply_edit demo_fs (joinpath [py ''projects'', py ''demo''] (py ''app.py'')) []) = None \<and>
   read_file
     (fst (apply_edit demo_fs (joinpath [py ''projects'', py ''demo''] (py ''app.py'')) []))
     (joinpath [py ''projects'', py ''demo''] (py ''app.py'')) = Some []"
proof -
  have "snd (apply_edit demo_fs (joinpath [py ''projects'', py ''demo''] (py ''src/main.py''))
          (py ''print(1)'')) = None"
    by (simp add: exec_simps demo_fs_def path_simps)
  moreover have "13 \<notin> set (py ''print(1)'')"
    by simp
  moreover have
    "snd (apply_edit demo_fs (joinpath [py ''projects'', py ''demo''] (py ''app.py'')) []) = None"
    by (simp add: exec_simps demo_fs_def path_simps)
  ultimately show ?thesis
    using
      edit_round_trip [of demo_fs "[py ''projects'', py ''demo'']" "py ''src/main.py''"
        "py ''print(1)''"]
      edit_round_trip [of demo_fs "[py ''projects'', py ''demo'']" "py ''app.py''" "[]"]
    by blast
qed

text \<open>
  An edit that raises after the file was opened leaves the file empty: the content
  \<open>U+D800\<close>, a surrogate, cannot be encoded. An edit whose path has a \<open>NUL\<close> raises before
  anything is written.
\<close>

lemma unencodable_edit_truncates:
  "apply_edit demo_fs (joinpath [py ''projects'', py ''demo''] (py ''app.py'')) [55296] =
     (demo_fs([py ''projects'', py ''demo'', py ''app.py''] \<mapsto> File []),
      Some (UnicodeEncodeError [55296]))"
  by (simp add: exec_simps demo_fs_def path_simps)

lemma nul_path_edit_raises:
  "apply_edit demo_fs (joinpath [py ''projects'', py ''demo''] (py ''../a'' @ [0] @ py ''b''))
     (py ''x'') =
     (demo_fs, Some (ValueError [py ''projects'', py ''demo'', py ''..'', py ''a'' @ [0] @ py ''b'']))"
  by (simp add: exec_simps demo_fs_def path_simps)

section \<open>Paths that leave the project root\<close>

text \<open>A path without \<open>..\<close> resolves to itself, through directories only.\<close>

lemma walk_plain:
  assumes "walk fs cur p = Inr t" and "py ''..'' \<notin> set p"
  shows "t = cur @ p" and "\<forall>k < length p. fs (cur @ take k p) = Some Dir"
  using assms
proof (induction p arbitrary: cur)
  case Nil
  {
    case 1
    then show ?case by simp
  next
    case 2
    then show ?case by simp
  }
next
  case (Cons c cs)
  {
    case 1
    from 1 have dir: "fs cur = Some Dir" and w: "walk fs (cur @ [c]) cs = Inr t"
      and nd: "py ''..'' \<notin> set cs"
      by (auto split: option.splits node.splits if_splits)
    from Cons.IH(1) [OF w nd] show ?case by simp
  next
    case 2
    from 2 have dir: "fs cur = Some Dir" and w: "walk fs (cur @ [c]) cs = Inr t"
      and nd: "py ''..'' \<notin> set cs"
      by (auto split: option.splits node.splits if_splits)
    from Cons.IH(2) [OF w nd] have ih: "\<forall>k<length cs. fs (cur @ c # take k cs) = Some Dir"
      by simp
    show ?case
    proof (intro allI impI)
      fix k
      assume "k < length (c # cs)"
      then show "fs (cur @ take k (c # cs)) = Some Dir"
        using dir ih by (cases k) simp_all
    qed
  }
qed

lemma walk_dots:
  assumes "\<forall>k \<le> length r. fs (take k r) = Some Dir"
  shows "walk fs r (replicate n (py ''..'')) = Inr (take (length r - n) r)"
  using assms
proof (induction n arbitrary: r)
  case 0
  then show ?case by simp
next
  case (Suc n)
  from Suc.prems have dir: "fs r = Some Dir"
    by (metis order_refl take_all)
  have "\<forall>k \<le> length (butlast r). fs (take k (butlast r)) = Some Dir"
  proof (intro allI impI)
    fix k
    assume k: "k \<le> length (butlast r)"
    then have "take k (butlast r) = take k r"
      by (simp add: take_butlast butlast_conv_take)
    with Suc.prems k show "fs (take k (butlast r)) = Some Dir"
      by simp
  qed
  from Suc.IH [OF this] have "walk fs (butlast r) (replicate n (py ''..'')) =
      Inr (take (length r - Suc n) r)"
    by (simp add: butlast_conv_take min_def)
  with dir show ?case
    by simp
qed

lemmas edit_simps =
  process_file_edits_def py_find_def file_edit_loop.simps edit_step_def slice_def strip_def
  isspace_def exec_simps FILE_EDIT_def END_FILE_EDIT_def py_replace.simps applied_line_def
  failed_line_def glyph_applied_def glyph_failed_def

text \<open>
  C1, as the claim states it, fails: in the project \<open>/projects/demo\<close> the directive for
  \<open>../evil.txt\<close> is applied. The file \<open>/projects/evil.txt\<close>, which is outside the project
  and was not there, is written, and the status line is the one of an applied edit.
\<close>

theorem path_escape_counterexample:
  "fst (process_file_edits (\<lambda>e. []) [py ''projects'', py ''demo''] demo_fs
          (py ''FILE_EDIT: ../evil.txt'' @ [10] @ py ''x'' @ [10] @ py ''END_FILE_EDIT''))
     [py ''projects'', py ''evil.txt''] = Some (File (py ''x'')) \<and>
   demo_fs [py ''projects'', py ''evil.txt''] = None \<and>
   \<not> prefix [py ''projects'', py ''demo''] [py ''projects'', py ''evil.txt''] \<and>
   snd (process_file_edits (\<lambda>e. []) [py ''projects'', py ''demo''] demo_fs
          (py ''FILE_EDIT: ../evil.txt'' @ [10] @ py ''x'' @ [10] @ py ''END_FILE_EDIT'')) =
     applied_line (py ''../evil.txt'')"
  by (simp add: edit_simps demo_fs_def path_simps)

text \<open>
  C1, amended. No path is checked against the project root, and no edit fails because
  its path leaves the root. For a root that is a directory and a relative path of \<open>n > 0\<close>
  parts \<open>..\<close> followed by a name, an edit that is applied has written its content to the
  node of that name \<open>n\<close> levels above the root, which is outside the root, and has changed
  nothing else.
\<close>

theorem dotdot_edit_leaves_root:
  assumes "is_dir fs root" and "py ''..'' \<notin> set root" and "root \<noteq> []"
    and "\<not> prefix (py ''/'') file_path_str"
    and "path_parts file_path_str = replicate n (py ''..'') @ [nm]"
    and "0 < n" and "nm \<noteq> py ''..''"
    and "apply_edit fs (joinpath root file_path_str) file_content = (fs', None)"
  shows "fs' = fs(take (length root - n) root @ [nm] \<mapsto> File file_content) \<and>
         \<not> prefix root (take (length root - n) root @ [nm])"
proof -
  let ?dots = "replicate n (py ''..'')"
  let ?up = "take (length root - n) root"
  let ?target = "?up @ [nm]"
  have full: "joinpath root file_path_str = root @ ?dots @ [nm]"
    using assms(4,5) by (simp add: joinpath_def)
  have par: "parent (root @ ?dots @ [nm]) = root @ ?dots"
    by (simp add: parent_def butlast_append)
  from assms(1) obtain t where w: "walk fs [] root = Inr t" and dir: "fs t = Some Dir"
    by (auto simp: is_dir_def split: sum.splits if_splits)
  from walk_plain [OF w assms(2)] have t: "t = root"
    and below: "\<forall>k < length root. fs (take k root) = Some Dir"
    by simp_all
  have dirs: "\<forall>k \<le> length root. fs (take k root) = Some Dir"
  proof (intro allI impI)
    fix k
    assume "k \<le> length root"
    then show "fs (take k root) = Some Dir"
      using below dir t by (cases "k = length root") simp_all
  qed
  have up: "walk fs [] (root @ ?dots) = Inr ?up"
    using w t walk_dots [OF dirs, of n] by (simp add: walk_append)
  have updir: "fs ?up = Some Dir"
    using dirs by simp
  have target: "walk fs [] ((root @ ?dots) @ [nm]) = Inr ?target"
    using up updir assms(7) by (simp only: walk_append) simp
  have "mkdir_parents fs (root @ ?dots) = (fs, None)"
  proof (cases "mkdir_parents fs (root @ ?dots)")
    case (Pair fs1 r)
    with assms(8) have "r = None"
      unfolding apply_edit_def full par by (cases r) simp_all
    with Pair have "is_dir fs1 (root @ ?dots)"
      by (simp add: mkdir_parents_is_dir)
    then have "\<not> bad_path (root @ ?dots)"
      by (simp add: is_dir_def split: if_splits)
    with up updir have "is_dir fs (root @ ?dots)"
      by (simp add: is_dir_def)
    then show ?thesis
      by (rule mkdir_parents_of_dir)
  qed
  with assms(8) have wf: "write_file fs (root @ ?dots @ [nm]) [file_content] = (fs', None)"
    unfolding apply_edit_def full par by simp
  from wf obtain t' where "walk fs [] (root @ ?dots @ [nm]) = Inr t'"
    and nd': "fs t' \<noteq> Some Dir" and "fs' = fs(t' \<mapsto> File (concat [file_content]))"
    by (rule write_file_result)
  with target have nd: "fs ?target \<noteq> Some Dir" and fs': "fs' = fs(?target \<mapsto> File file_content)"
    by simp_all
  have "\<not> prefix root ?target"
  proof
    assume pre: "prefix root ?target"
    then have "length root \<le> length ?target"
      by (rule prefix_length_le)
    moreover have "length ?target \<le> length root"
      using assms(3,6) by (cases root) simp_all
    ultimately have len: "length ?target = length root"
      by simp
    from pre obtain zs where zs: "?target = root @ zs"
      by (auto simp: prefix_def)
    then have "length ?target = length root + length zs"
      by (metis length_append)
    with len have "zs = []"
      by simp
    with zs have "?target = root"
      by simp
    with dir t nd show False
      by simp
  qed
  with fs' show ?thesis
    by simp
qed

theorem dotdot_edit_leaves_root_witness:
  "apply_edit demo_fs (joinpath [py ''projects'', py ''demo''] (py ''../../etc.conf'')) (py ''x'') =
     (demo_fs([py ''etc.conf''] \<mapsto> File (py ''x'')), None) \<and>
   \<not> prefix [py ''projects'', py ''demo''] [py ''etc.conf'']"
proof -
  obtain fs' r where res:
    "apply_edit demo_fs (joinpath [py ''projects'', py ''demo''] (py ''../../etc.conf'')) (py ''x'') =
       (fs', r)"
    by (cases "apply_edit demo_fs (joinpath [py ''projects'', py ''demo''] (py ''../../etc.conf''))
        (py ''x'')")
  then have "snd (fs', r) = None"
    by (simp only: res [symmetric]) (simp add: exec_simps demo_fs_def path_simps)
  then have r: "r = None"
    by simp
  have "is_dir demo_fs [py ''projects'', py ''demo'']"
    by (simp add: exec_simps demo_fs_def)
  moreover have "path_parts (py ''../../etc.conf'') = replicate 2 (py ''..'') @ [py ''etc.conf'']"
    by (simp add: path_simps numeral_2_eq_2)
  ultimately have
    "fs' = demo_fs(take (length [py ''projects'', py ''demo''] - 2)
               [py ''projects'', py ''demo''] @ [py ''etc.conf''] \<mapsto> File (py ''x'')) \<and>
     \<not> prefix [py ''projects'', py ''demo'']
        (take (length [py ''projects'', py ''demo''] - 2) [py ''projects'', py ''demo''] @
         [py ''etc.conf''])"
    using res r
      dotdot_edit_leaves_root [of demo_fs "[py ''projects'', py ''demo'']"
        "py ''../../etc.conf''" 2 "py ''etc.conf''" "py ''x''" fs']
    by simp
  with res r show ?thesis
    by simp
qed

text \<open>
  The entries of a plan are joined and written in the same way: the entry \<open>../notes.txt\<close>
  of a plan for the new project \<open>/projects/new\<close> is written to \<open>/projects/notes.txt\<close>.
\<close>

lemma plan_entry_leaves_root:
  "fst (create_project [py ''projects''] demo_fs
          \<lparr>project_name = py ''new'', description = [], technologies = None,
           dependencies = None,
           structure' = [\<lparr>item_path = py ''../notes.txt'', item_type = py ''file'',
                           item_content = Some (py ''x'')\<rparr>]\<rparr> [])
     [py ''projects'', py ''notes.txt''] = Some (File (py ''x''))"
  by (simp add: create_project_def demo_fs_def path_simps exec_simps get_or_def
      readme_chunks_def requirements_chunks_def Let_def)

section \<open>Searching for a marker\<close>

lemma find_in_None: "\<not> sublist sub s \<Longrightarrow> find_in sub s = None"
proof (induction s)
  case Nil
  then show ?case by simp
next
  case (Cons c cs)
  then show ?case
    by (simp add: sublist_Cons_right)
qed

lemma find_in_char:
  "c \<notin> set a \<Longrightarrow> find_in [c] (a @ c # rest) = Some (length a)"
  by (induction a) auto

lemma unbordered_FILE_EDIT: "unbordered FILE_EDIT"
  by (simp add: unbordered_def FILE_EDIT_def) code_simp

lemma unbordered_END_FILE_EDIT: "unbordered END_FILE_EDIT"
  by (simp add: unbordered_def END_FILE_EDIT_def) code_simp

lemma prefix_iff_take: "prefix xs ys \<longleftrightarrow> take (length xs) ys = xs"
proof
  assume "prefix xs ys"
  then show "take (length xs) ys = xs"
    by (auto simp: prefix_def)
next
  assume "take (length xs) ys = xs"
  then have "ys = xs @ drop (length xs) ys"
    by (metis append_take_drop_id)
  then show "prefix xs ys"
    by (metis prefixI)
qed

lemma find_in_prefix_0: "prefix m s \<Longrightarrow> find_in m s = Some 0"
  by (cases s) auto

lemma no_early_prefix:
  assumes "unbordered m" and "\<not> sublist m u" and "u \<noteq> []"
  shows "\<not> prefix m (u @ m @ rest)"
proof
  assume "prefix m (u @ m @ rest)"
  then have eq: "take (length m) (u @ m @ rest) = m"
    by (simp only: prefix_iff_take)
  show False
  proof (cases "length m \<le> length u")
    case True
    with eq have "take (length m) u = m"
      by simp
    then have "prefix m u"
      by (simp only: prefix_iff_take)
    with assms(2) show False
      by auto
  next
    case False
    let ?k = "length u"
    from False assms(3) have k: "?k \<in> {1..<length m}"
      by (cases u) simp_all
    from False eq have "m = u @ take (length m - ?k) m"
      by simp
    then have "drop ?k m = drop ?k (u @ take (length m - ?k) m)"
      by simp
    then have "drop ?k m = take (length m - ?k) m"
      by simp
    with assms(1) k show False
      by (auto simp: unbordered_def)
  qed
qed

lemma find_in_unbordered:
  assumes "unbordered m" and "\<not> sublist m pre"
  shows "find_in m (pre @ m @ rest) = Some (length pre)"
  using assms(2)
proof (induction pre)
  case Nil
  then show ?case
    by (simp add: find_in_prefix_0)
next
  case (Cons c pre)
  from Cons.prems have ns: "\<not> sublist m pre"
    by (simp add: sublist_Cons_right)
  from no_early_prefix [OF assms(1) Cons.prems, of rest]
  have "\<not> prefix m (c # pre @ m @ rest)"
    by simp
  with Cons.IH [OF ns] show ?case
    by simp
qed

lemma py_find_append:
  "py_find (pre @ s) m (length pre) = map_option (\<lambda>i. length pre + i) (find_in m s)"
  by (simp add: py_find_def)

lemma find_in_char_skip:
  "c \<notin> set a \<Longrightarrow> find_in [c] (a @ rest) = map_option (\<lambda>i. length a + i) (find_in [c] rest)"
proof (induction a)
  case Nil
  then show ?case
    by (cases "find_in [c] rest") simp_all
next
  case (Cons x a)
  then show ?case
    by (cases "find_in [c] rest") simp_all
qed

lemma py_find_at:
  assumes "s = a @ r" and "k = length a" and "find_in m r = Some i"
  shows "py_find s m k = Some (k + i)"
  using assms by (simp add: py_find_def)

lemma py_find_None: "\<not> sublist m (drop k s) \<Longrightarrow> py_find s m k = None"
  by (simp add: py_find_def find_in_None)

section \<open>The directives of a text\<close>

lemma length_FILE_EDIT: "length FILE_EDIT = 11"
  by (simp add: FILE_EDIT_def)

lemma length_END_FILE_EDIT: "length END_FILE_EDIT = 13"
  by (simp add: END_FILE_EDIT_def)

lemma length_directive: "length (directive p b) = 25 + length p + length b"
  by (simp add: directive_def length_FILE_EDIT length_END_FILE_EDIT)

lemma parse_edits_scanned: "parse_edits response = map (instruction response) (scanned response)"
  by (simp add: parse_edits_def scanned_def split: option.splits)

text \<open>The loop of \<open>_process_file_edits\<close> applies the directives it scans, in their order.\<close>

lemma file_edit_loop_fold:
  "file_edit_loop str_exc root response i st =
     foldl (\<lambda>st d. edit_step str_exc root response d st) st (scan_edits response i)"
proof (induction str_exc root response i st rule: file_edit_loop.induct)
  case (1 str_exc root response file_edit_start st)
  show ?case
    by (subst file_edit_loop.simps, subst scan_edits.simps)
       (simp add: "1.IH" split: option.splits)
qed

lemma process_file_edits_fold:
  "process_file_edits str_exc root fs response =
     foldl (\<lambda>st d. edit_step str_exc root response d st) (fs, response) (scanned response)"
  by (simp add: process_file_edits_def scanned_def file_edit_loop_fold split: option.splits)

text \<open>One well-formed directive at the index \<open>length pre\<close>: the three indices of the loop.\<close>

lemma directive_indices:
  assumes tx: "text = pre @ directive p b @ rest" and wf: "well_formed p b"
  shows "py_find text [10] (length pre) = Some (length pre + 11 + length p)"
    and "py_find text END_FILE_EDIT (length pre + 11 + length p) =
           Some (length pre + 12 + length p + length b)"
proof -
  from wf have "10 \<notin> set (FILE_EDIT @ p)"
    by (simp add: well_formed_def FILE_EDIT_def)
  from find_in_char [OF this, of "b @ END_FILE_EDIT @ rest"]
  have "find_in [10] (directive p b @ rest) = Some (11 + length p)"
    by (simp add: directive_def length_FILE_EDIT)
  with py_find_append [of pre "directive p b @ rest" "[10]"]
  show "py_find text [10] (length pre) = Some (length pre + 11 + length p)"
    by (simp add: tx)
  have "\<not> prefix END_FILE_EDIT (10 # b)"
    by (simp add: END_FILE_EDIT_def)
  with wf have ns: "\<not> sublist END_FILE_EDIT ([10] @ b)"
    by (simp add: well_formed_def sublist_Cons_right)
  have "py_find text END_FILE_EDIT (length pre + 11 + length p) =
          Some (length pre + 11 + length p + length ([10] @ b))"
  proof (rule py_find_at)
    show "text = (pre @ FILE_EDIT @ p) @ ([10] @ b) @ END_FILE_EDIT @ rest"
      by (simp add: tx directive_def)
    show "length pre + 11 + length p = length (pre @ FILE_EDIT @ p)"
      by (simp add: length_FILE_EDIT)
    show "find_in END_FILE_EDIT (([10] @ b) @ END_FILE_EDIT @ rest) = Some (length ([10] @ b))"
      by (rule find_in_unbordered [OF unbordered_END_FILE_EDIT ns])
  qed
  then show "py_find text END_FILE_EDIT (length pre + 11 + length p) =
          Some (length pre + 12 + length p + length b)"
    by (simp add: add_ac)
qed

lemma directive_slices:
  assumes tx: "text = pre @ directive p b @ rest"
  shows "slice text (length pre + 11) (length pre + 11 + length p) = p"
    and "slice text (length pre + 11 + length p + 1) (length pre + 12 + length p + length b) = b"
    and "slice text (length pre) (length pre + 12 + length p + length b + 14) =
           directive p b @ take 1 rest"
proof -
  have "drop (length pre + 11) text = p @ [10] @ b @ END_FILE_EDIT @ rest"
    using drop_append [of "length pre + 11" "pre @ FILE_EDIT" "p @ [10] @ b @ END_FILE_EDIT @ rest"]
    by (simp add: tx directive_def length_FILE_EDIT)
  then show "slice text (length pre + 11) (length pre + 11 + length p) = p"
    by (simp add: slice_def)
  have "drop (length pre + 11 + length p + 1) text = b @ END_FILE_EDIT @ rest"
    using drop_append [of "length pre + 11 + length p + 1" "pre @ FILE_EDIT @ p @ [10]"
        "b @ END_FILE_EDIT @ rest"]
    by (simp add: tx directive_def length_FILE_EDIT)
  then show "slice text (length pre + 11 + length p + 1) (length pre + 12 + length p + length b) = b"
    by (simp add: slice_def)
  have "take (length (directive p b) + 1) (directive p b @ rest) = directive p b @ take 1 rest"
    by simp
  then show "slice text (length pre) (length pre + 12 + length p + length b + 14) =
      directive p b @ take 1 rest"
    by (simp add: slice_def tx length_directive add.commute add.left_commute)
qed

lemma directive_instruction:
  assumes "text = pre @ directive p b @ rest"
  shows "instruction text (length pre, length pre + 11 + length p,
           length pre + 12 + length p + length b) = (strip p, strip b)"
  using directive_slices(1,2) [OF assms] by (simp add: instruction_def)

lemma scan_directive:
  assumes tx: "text = pre @ directive p b @ rest" and wf: "well_formed p b"
  shows "scan_edits text (length pre) =
           (length pre, length pre + 11 + length p, length pre + 12 + length p + length b) #
           (case py_find text FILE_EDIT (length pre + 12 + length p + length b) of
              None \<Rightarrow> []
            | Some next_start \<Rightarrow> scan_edits text next_start)"
  by (subst scan_edits.simps) (simp add: directive_indices [OF tx wf])

text \<open>The search for the next marker starts at the end marker of the directive.\<close>

lemma next_marker:
  assumes tx: "text = pre @ directive p b @ mid @ FILE_EDIT @ rest"
    and "\<not> sublist FILE_EDIT (END_FILE_EDIT @ mid)"
  shows "py_find text FILE_EDIT (length pre + 12 + length p + length b) =
           Some (length (pre @ directive p b @ mid))"
proof -
  have "py_find text FILE_EDIT (length pre + 12 + length p + length b) =
          Some (length pre + 12 + length p + length b + length (END_FILE_EDIT @ mid))"
  proof (rule py_find_at)
    show "text = (pre @ FILE_EDIT @ p @ [10] @ b) @ (END_FILE_EDIT @ mid) @ FILE_EDIT @ rest"
      by (simp add: tx directive_def)
    show "length pre + 12 + length p + length b = length (pre @ FILE_EDIT @ p @ [10] @ b)"
      by (simp add: length_FILE_EDIT)
    show "find_in FILE_EDIT ((END_FILE_EDIT @ mid) @ FILE_EDIT @ rest) =
        Some (length (END_FILE_EDIT @ mid))"
      by (rule find_in_unbordered [OF unbordered_FILE_EDIT assms(2)])
  qed
  then show ?thesis
    by (simp add: length_directive length_END_FILE_EDIT add_ac)
qed

lemma no_next_marker:
  assumes tx: "text = pre @ directive p b @ post"
    and "\<not> sublist FILE_EDIT (END_FILE_EDIT @ post)"
  shows "py_find text FILE_EDIT (length pre + 12 + length p + length b) = None"
proof -
  have "drop (length pre + 12 + length p + length b) text = END_FILE_EDIT @ post"
    using drop_append [of "length pre + 12 + length p + length b" "pre @ FILE_EDIT @ p @ [10] @ b"
        "END_FILE_EDIT @ post"]
    by (simp add: tx directive_def length_FILE_EDIT)
  with assms(2) show ?thesis
    by (simp add: py_find_None)
qed

lemma first_marker:
  assumes "\<not> sublist FILE_EDIT pre"
  shows "py_find (pre @ FILE_EDIT @ rest) FILE_EDIT 0 = Some (length pre)"
  using find_in_unbordered [OF unbordered_FILE_EDIT assms, of rest] by (simp add: py_find_def)

text \<open>A marker that no end marker follows: the loop ends at once.\<close>

lemma scan_unterminated:
  assumes tx: "text = pre @ FILE_EDIT @ rest" and "\<not> sublist END_FILE_EDIT rest"
  shows "scan_edits text (length pre) = []"
proof (cases "py_find text [10] (length pre)")
  case None
  then show ?thesis
    by (subst scan_edits.simps) simp
next
  case (Some file_path_end)
  have "10 \<notin> set FILE_EDIT"
    by (simp add: FILE_EDIT_def)
  from find_in_char_skip [OF this, of rest] Some py_find_append [of pre "FILE_EDIT @ rest" "[10]"]
  obtain j where j: "file_path_end = length pre + 11 + j"
    by (auto simp: tx length_FILE_EDIT)
  have "drop file_path_end text = drop j rest"
    using drop_append [of file_path_end "pre @ FILE_EDIT" rest]
    by (simp add: tx j length_FILE_EDIT)
  moreover have "\<not> sublist END_FILE_EDIT (drop j rest)"
  proof
    assume "sublist END_FILE_EDIT (drop j rest)"
    then obtain ps ss where "drop j rest = ps @ END_FILE_EDIT @ ss"
      by (auto simp: sublist_def)
    then have "rest = (take j rest @ ps) @ END_FILE_EDIT @ ss"
      by (metis append_assoc append_take_drop_id)
    then have "sublist END_FILE_EDIT rest"
      by (metis sublist_appendI)
    with assms(2) show False
      by simp
  qed
  ultimately have "py_find text END_FILE_EDIT file_path_end = None"
    by (simp add: py_find_None)
  with Some show ?thesis
    by (subst scan_edits.simps) simp
qed

lemma not_scanned: "\<not> sublist FILE_EDIT response \<Longrightarrow> scanned response = []"
  by (simp add: scanned_def py_find_None)

lemma scanned_two:
  assumes wf1: "well_formed p1 b1" and wf2: "well_formed p2 b2"
    and pre: "\<not> sublist FILE_EDIT pre"
    and mid: "\<not> sublist FILE_EDIT (END_FILE_EDIT @ mid)"
    and post: "\<not> sublist FILE_EDIT (END_FILE_EDIT @ post)"
    and tx: "response = pre @ directive p1 b1 @ mid @ directive p2 b2 @ post"
  shows "scanned response =
     [(length pre, length pre + 11 + length p1, length pre + 12 + length p1 + length b1),
      (length (pre @ directive p1 b1 @ mid),
       length (pre @ directive p1 b1 @ mid) + 11 + length p2,
       length (pre @ directive p1 b1 @ mid) + 12 + length p2 + length b2)]"
proof -
  let ?pre2 = "pre @ directive p1 b1 @ mid"
  have tx1: "response = pre @ directive p1 b1 @ (mid @ directive p2 b2 @ post)"
    by (simp add: tx)
  have tx1': "response = pre @ directive p1 b1 @ mid @ FILE_EDIT @
      (p2 @ [10] @ b2 @ END_FILE_EDIT @ post)"
    by (simp add: tx directive_def)
  have tx2: "response = ?pre2 @ directive p2 b2 @ post"
    by (simp add: tx)
  have start: "py_find response FILE_EDIT 0 = Some (length pre)"
    using first_marker [OF pre, of "p1 @ [10] @ b1 @ END_FILE_EDIT @ mid @ directive p2 b2 @ post"]
    by (simp add: tx directive_def)
  have nxt: "py_find response FILE_EDIT (length pre + 12 + length p1 + length b1) =
      Some (length ?pre2)"
    by (rule next_marker [OF tx1' mid])
  have fin: "py_find response FILE_EDIT (length ?pre2 + 12 + length p2 + length b2) = None"
    by (rule no_next_marker [OF tx2 post])
  show ?thesis
    unfolding scanned_def start
    by (simp only: option.case scan_directive [OF tx1 wf1] nxt scan_directive [OF tx2 wf2] fin)
qed

lemma scanned_unterminated:
  assumes "\<not> sublist FILE_EDIT pre" and "\<not> sublist END_FILE_EDIT rest"
  shows "scanned (pre @ FILE_EDIT @ rest) = []"
  using first_marker [OF assms(1), of rest] scan_unterminated [OF refl assms(2), of pre]
  by (simp add: scanned_def)

lemma scanned_then_unterminated:
  assumes wf1: "well_formed p1 b1"
    and pre: "\<not> sublist FILE_EDIT pre"
    and mid: "\<not> sublist FILE_EDIT (END_FILE_EDIT @ mid)"
    and rest: "\<not> sublist END_FILE_EDIT rest"
    and tx: "response = pre @ directive p1 b1 @ mid @ FILE_EDIT @ rest"
  shows "scanned response =
     [(length pre, length pre + 11 + length p1, length pre + 12 + length p1 + length b1)]"
proof -
  let ?pre2 = "pre @ directive p1 b1 @ mid"
  have tx1: "response = pre @ directive p1 b1 @ (mid @ FILE_EDIT @ rest)"
    by (simp add: tx)
  have tx2: "response = ?pre2 @ FILE_EDIT @ rest"
    by (simp add: tx)
  have start: "py_find response FILE_EDIT 0 = Some (length pre)"
    using first_marker [OF pre, of "p1 @ [10] @ b1 @ END_FILE_EDIT @ mid @ FILE_EDIT @ rest"]
    by (simp add: tx directive_def)
  have nxt: "py_find response FILE_EDIT (length pre + 12 + length p1 + length b1) =
      Some (length ?pre2)"
    by (rule next_marker [OF tx mid])
  show ?thesis
    unfolding scanned_def start
    by (simp only: option.case scan_directive [OF tx1 wf1] nxt scan_unterminated [OF tx2 rest])
qed

text \<open>
  C2. A text without the marker \<open>FILE_EDIT: \<close> gives no instruction, and the loop leaves
  the files and the text as they are. Two well-formed directives that do not overlap
  (no marker before the first, none from its end marker up to the second, none from the
  end marker of the second on) give the two instructions, in the order of the text. A
  marker that no end marker follows gives no instruction, at the start as after a
  directive, and the loop stops there.
\<close>

theorem parse_edits_cases:
  "(\<not> sublist FILE_EDIT text0 \<longrightarrow>
      parse_edits text0 = [] \<and> process_file_edits str_exc root fs text0 = (fs, text0)) \<and>
   (well_formed p1 b1 \<and> well_formed p2 b2 \<and> \<not> sublist FILE_EDIT pre \<and>
    \<not> sublist FILE_EDIT (END_FILE_EDIT @ mid) \<and> \<not> sublist FILE_EDIT (END_FILE_EDIT @ post) \<longrightarrow>
      parse_edits (pre @ directive p1 b1 @ mid @ directive p2 b2 @ post) =
        [(strip p1, strip b1), (strip p2, strip b2)]) \<and>
   (\<not> sublist FILE_EDIT pre \<and> \<not> sublist END_FILE_EDIT rest \<longrightarrow>
      parse_edits (pre @ FILE_EDIT @ rest) = [] \<and>
      process_file_edits str_exc root fs (pre @ FILE_EDIT @ rest) = (fs, pre @ FILE_EDIT @ rest)) \<and>
   (well_formed p1 b1 \<and> \<not> sublist FILE_EDIT pre \<and>
    \<not> sublist FILE_EDIT (END_FILE_EDIT @ mid) \<and> \<not> sublist END_FILE_EDIT rest \<longrightarrow>
      parse_edits (pre @ directive p1 b1 @ mid @ FILE_EDIT @ rest) = [(strip p1, strip b1)])"
proof (intro conjI impI)
  assume "\<not> sublist FILE_EDIT text0"
  then have "scanned text0 = []"
    by (rule not_scanned)
  then show "parse_edits text0 = []"
    and "process_file_edits str_exc root fs text0 = (fs, text0)"
    by (simp_all add: parse_edits_scanned process_file_edits_fold)
next
  let ?t = "pre @ directive p1 b1 @ mid @ directive p2 b2 @ post"
  assume a: "well_formed p1 b1 \<and> well_formed p2 b2 \<and> \<not> sublist FILE_EDIT pre \<and>
    \<not> sublist FILE_EDIT (END_FILE_EDIT @ mid) \<and> \<not> sublist FILE_EDIT (END_FILE_EDIT @ post)"
  then have sc: "scanned ?t =
     [(length pre, length pre + 11 + length p1, length pre + 12 + length p1 + length b1),
      (length (pre @ directive p1 b1 @ mid),
       length (pre @ directive p1 b1 @ mid) + 11 + length p2,
       length (pre @ directive p1 b1 @ mid) + 12 + length p2 + length b2)]"
    using scanned_two [OF _ _ _ _ _ refl, of p1 b1 p2 b2 pre mid post] by blast
  have i1: "instruction ?t (length pre, length pre + 11 + length p1,
      length pre + 12 + length p1 + length b1) = (strip p1, strip b1)"
    by (rule directive_instruction) simp
  have i2: "instruction ?t (length (pre @ directive p1 b1 @ mid),
       length (pre @ directive p1 b1 @ mid) + 11 + length p2,
       length (pre @ directive p1 b1 @ mid) + 12 + length p2 + length b2) = (strip p2, strip b2)"
    by (rule directive_instruction) simp
  show "parse_edits ?t = [(strip p1, strip b1), (strip p2, strip b2)]"
    by (simp only: parse_edits_scanned sc list.map i1 i2)
next
  assume "\<not> sublist FILE_EDIT pre \<and> \<not> sublist END_FILE_EDIT rest"
  then have "scanned (pre @ FILE_EDIT @ rest) = []"
    by (simp add: scanned_unterminated)
  then show "parse_edits (pre @ FILE_EDIT @ rest) = []"
    and "process_file_edits str_exc root fs (pre @ FILE_EDIT @ rest) = (fs, pre @ FILE_EDIT @ rest)"
    by (simp_all add: parse_edits_scanned process_file_edits_fold)
next
  let ?t = "pre @ directive p1 b1 @ mid @ FILE_EDIT @ rest"
  assume a: "well_formed p1 b1 \<and> \<not> sublist FILE_EDIT pre \<and>
    \<not> sublist FILE_EDIT (END_FILE_EDIT @ mid) \<and> \<not> sublist END_FILE_EDIT rest"
  then have sc: "scanned ?t =
     [(length pre, length pre + 11 + length p1, length pre + 12 + length p1 + length b1)]"
    using scanned_then_unterminated [OF _ _ _ _ refl, of p1 b1 pre mid rest] by blast
  have i1: "instruction ?t (length pre, length pre + 11 + length p1,
      length pre + 12 + length p1 + length b1) = (strip p1, strip b1)"
    by (rule directive_instruction) simp
  show "parse_edits ?t = [(strip p1, strip b1)]"
    by (simp only: parse_edits_scanned sc list.map i1)
qed

theorem parse_edits_cases_witness:
  "parse_edits (py ''No edits here.'') = [] \<and>
   parse_edits (py ''A'' @ [10] @ directive (py ''a.py'') (py ''x = 1'' @ [10]) @
                [10] @ py ''B'' @ [10] @ directive (py ''b.py'') (py ''y = 2'' @ [10]) @ [10]) =
     [(py ''a.py'', py ''x = 1''), (py ''b.py'', py ''y = 2'')] \<and>
   parse_edits (py ''A'' @ [10] @ FILE_EDIT @ py ''a.py'' @ [10] @ py ''x = 1'') = [] \<and>
   parse_edits (py ''A'' @ [10] @ directive (py ''a.py'') (py ''x = 1'' @ [10]) @
                [10] @ py ''B'' @ [10] @ FILE_EDIT @ py ''a.py'' @ [10] @ py ''x = 1'') =
     [(py ''a.py'', py ''x = 1'')]"
proof -
  have h0: "\<not> sublist FILE_EDIT (py ''No edits here.'')"
    by code_simp
  have wf1: "well_formed (py ''a.py'') (py ''x = 1'' @ [10])"
    unfolding well_formed_def by code_simp
  have wf2: "well_formed (py ''b.py'') (py ''y = 2'' @ [10])"
    unfolding well_formed_def by code_simp
  have pre: "\<not> sublist FILE_EDIT (py ''A'' @ [10])"
    by code_simp
  have mid: "\<not> sublist FILE_EDIT (END_FILE_EDIT @ [10] @ py ''B'' @ [10])"
    by code_simp
  have post: "\<not> sublist FILE_EDIT (END_FILE_EDIT @ [10])"
    by code_simp
  have rest: "\<not> sublist END_FILE_EDIT (py ''a.py'' @ [10] @ py ''x = 1'')"
    by code_simp
  have s1: "strip (py ''a.py'') = py ''a.py''" "strip (py ''x = 1'' @ [10]) = py ''x = 1''"
    "strip (py ''b.py'') = py ''b.py''" "strip (py ''y = 2'' @ [10]) = py ''y = 2''"
    by (simp_all add: strip_def isspace_def)
  from parse_edits_cases [where ?text0.0 = "py ''No edits here.''" and pre = "py ''A'' @ [10]"
      and ?p1.0 = "py ''a.py''" and ?b1.0 = "py ''x = 1'' @ [10]"
      and mid = "[10] @ py ''B'' @ [10]"
      and ?p2.0 = "py ''b.py''" and ?b2.0 = "py ''y = 2'' @ [10]" and post = "[10]"
      and rest = "py ''a.py'' @ [10] @ py ''x = 1''"]
  show ?thesis
    using h0 wf1 wf2 pre mid post rest by (simp only: s1 append_assoc) blast
qed

section \<open>A failing edit in a batch\<close>

text \<open>\<open>str.replace\<close> puts the new text where the old one first stands.\<close>

lemma py_replace_shows_new:
  assumes "sublist old s" and "old \<noteq> []"
  shows "sublist new (py_replace s old new)"
proof (cases "find_in old s")
  case None
  from assms(1) have "find_in old s \<noteq> None"
  proof (induction s)
    case Nil
    with assms(2) show ?case by simp
  next
    case (Cons c cs)
    then show ?case
      by (auto simp: sublist_Cons_right)
  qed
  with None show ?thesis
    by simp
next
  case (Some i)
  with assms(2) show ?thesis
    by (subst py_replace.simps) simp
qed

text \<open>
  The step of the loop on a directive of the text: the path and the content are the
  stripped ones, and the text that is replaced is the directive with the one character
  that follows its end marker (the source takes 14 characters from the start of
  \<open>END_FILE_EDIT\<close>, which has 13).
\<close>

lemma edit_step_directive:
  assumes tx: "response = pre @ directive p b @ rest"
  shows "edit_step str_exc root response
           (length pre, length pre + 11 + length p, length pre + 12 + length p + length b) st =
         (case apply_edit (fst st) (joinpath root (strip p)) (strip b) of
            (fs', None) \<Rightarrow>
              (fs', py_replace (snd st) (directive p b @ take 1 rest) (applied_line (strip p)))
          | (fs', Some e) \<Rightarrow>
              (fs', py_replace (snd st) (directive p b @ take 1 rest)
                      (failed_line (strip p) (str_exc e))))"
  by (simp only: edit_step_def prod.case Let_def directive_slices [OF tx])

text \<open>
  In a text with two well-formed directives, when the edit of the first one raises the
  exception \<open>e\<close>, the second edit is still applied, to the files as the first attempt
  left them, and the function returns. The text of the first directive, with the
  character that follows it, is replaced by the line of a failed edit with the path and
  the message of \<open>e\<close>; the replacement for the second directive is made in the text that
  results, where its text stands only if that character was not its first one.
\<close>

lemma batch_continues_after_failed_edit:
  assumes "well_formed p1 b1" and "well_formed p2 b2"
    and "\<not> sublist FILE_EDIT pre"
    and "\<not> sublist FILE_EDIT (END_FILE_EDIT @ mid)"
    and "\<not> sublist FILE_EDIT (END_FILE_EDIT @ post)"
    and tx: "response = pre @ directive p1 b1 @ mid @ directive p2 b2 @ post"
    and failed: "apply_edit fs (joinpath root (strip p1)) (strip b1) = (fs1, Some e)"
  shows "process_file_edits str_exc root fs response =
           (fst (apply_edit fs1 (joinpath root (strip p2)) (strip b2)),
            py_replace
              (py_replace response (directive p1 b1 @ take 1 (mid @ directive p2 b2 @ post))
                 (failed_line (strip p1) (str_exc e)))
              (directive p2 b2 @ take 1 post)
              (case snd (apply_edit fs1 (joinpath root (strip p2)) (strip b2)) of
                 None \<Rightarrow> applied_line (strip p2)
               | Some e2 \<Rightarrow> failed_line (strip p2) (str_exc e2))) \<and>
         sublist (failed_line (strip p1) (str_exc e))
           (py_replace response (directive p1 b1 @ take 1 (mid @ directive p2 b2 @ post))
              (failed_line (strip p1) (str_exc e)))"
proof -
  let ?span1 = "directive p1 b1 @ take 1 (mid @ directive p2 b2 @ post)"
  have tx1: "response = pre @ directive p1 b1 @ (mid @ directive p2 b2 @ post)"
    by (simp add: tx)
  have tx2: "response = (pre @ directive p1 b1 @ mid) @ directive p2 b2 @ post"
    by (simp add: tx)
  have sc: "scanned response =
     [(length pre, length pre + 11 + length p1, length pre + 12 + length p1 + length b1),
      (length (pre @ directive p1 b1 @ mid),
       length (pre @ directive p1 b1 @ mid) + 11 + length p2,
       length (pre @ directive p1 b1 @ mid) + 12 + length p2 + length b2)]"
    by (rule scanned_two [OF assms(1-5) tx])
  have step1: "edit_step str_exc root response
      (length pre, length pre + 11 + length p1, length pre + 12 + length p1 + length b1)
      (fs, response) =
      (fs1, py_replace response ?span1 (failed_line (strip p1) (str_exc e)))"
    by (simp only: edit_step_directive [OF tx1] fst_conv snd_conv failed prod.case option.case)
  have "process_file_edits str_exc root fs response =
      edit_step str_exc root response
        (length (pre @ directive p1 b1 @ mid),
         length (pre @ directive p1 b1 @ mid) + 11 + length p2,
         length (pre @ directive p1 b1 @ mid) + 12 + length p2 + length b2)
        (fs1, py_replace response ?span1 (failed_line (strip p1) (str_exc e)))"
    by (simp only: process_file_edits_fold sc foldl.simps step1)
  also have "\<dots> =
      (fst (apply_edit fs1 (joinpath root (strip p2)) (strip b2)),
       py_replace (py_replace response ?span1 (failed_line (strip p1) (str_exc e)))
         (directive p2 b2 @ take 1 post)
         (case snd (apply_edit fs1 (joinpath root (strip p2)) (strip b2)) of
            None \<Rightarrow> applied_line (strip p2)
          | Some e2 \<Rightarrow> failed_line (strip p2) (str_exc e2)))"
    by (simp only: edit_step_directive [OF tx2] fst_conv snd_conv)
       (simp split: prod.splits option.splits)
  finally have main: "process_file_edits str_exc root fs response =
      (fst (apply_edit fs1 (joinpath root (strip p2)) (strip b2)),
       py_replace (py_replace response ?span1 (failed_line (strip p1) (str_exc e)))
         (directive p2 b2 @ take 1 post)
         (case snd (apply_edit fs1 (joinpath root (strip p2)) (strip b2)) of
            None \<Rightarrow> applied_line (strip p2)
          | Some e2 \<Rightarrow> failed_line (strip p2) (str_exc e2)))" .
  have "sublist ?span1 response"
    unfolding tx1 by (metis append_assoc append_take_drop_id sublist_appendI)
  moreover have "?span1 \<noteq> []"
    by (simp add: directive_def FILE_EDIT_def)
  ultimately have "sublist (failed_line (strip p1) (str_exc e))
      (py_replace response ?span1 (failed_line (strip p1) (str_exc e)))"
    by (rule py_replace_shows_new)
  with main show ?thesis
    by simp
qed

text \<open>
  The batch of a failing edit, a line feed and an edit of \<open>b.py\<close>: the second edit is
  applied, and both status lines are shown.
\<close>

lemma batch_continues_example:
  "fst (process_file_edits (\<lambda>e. py ''E'') [py ''projects'', py ''demo''] demo_fs failing_batch)
     [py ''projects'', py ''demo'', py ''b.py''] = Some (File (py ''y'')) \<and>
   snd (process_file_edits (\<lambda>e. py ''E'') [py ''projects'', py ''demo''] demo_fs failing_batch) =
     failed_line (py ''app.py/x'') (py ''E'') @ applied_line (py ''b.py'')"
proof -
  have wf1: "well_formed (py ''app.py/x'') (py ''1'' @ [10])"
    unfolding well_formed_def by code_simp
  have wf2: "well_formed (py ''b.py'') (py ''y'' @ [10])"
    unfolding well_formed_def by code_simp
  have pre: "\<not> sublist FILE_EDIT []"
    by code_simp
  have mid: "\<not> sublist FILE_EDIT (END_FILE_EDIT @ [10])"
    by code_simp
  have tx: "failing_batch = [] @ directive (py ''app.py/x'') (py ''1'' @ [10]) @ [10] @
      directive (py ''b.py'') (py ''y'' @ [10]) @ [10]"
    by (simp add: failing_batch_def)
  have failed: "apply_edit demo_fs
      (joinpath [py ''projects'', py ''demo''] (strip (py ''app.py/x''))) (strip (py ''1'' @ [10])) =
      (demo_fs, Some (OSError EEXIST [py ''projects'', py ''demo'', py ''app.py'']))"
    by (simp add: edit_simps demo_fs_def path_simps)
  note eq = batch_continues_after_failed_edit [OF wf1 wf2 pre mid mid tx failed,
      of "\<lambda>e. py ''E''", THEN conjunct1]
  show ?thesis
    unfolding eq
    by (simp add: edit_simps demo_fs_def path_simps failing_batch_def directive_def)
qed

text \<open>
  C8, where the source departs from it. Two directives without anything between them, in
  the project \<open>/projects/demo\<close>: the edit of \<open>a\<close> is applied, and the edit of \<open>app.py/x\<close>
  raises, as \<open>app.py\<close> is a regular file. The status line of the first edit has replaced
  the first letter of the second directive with the first directive, so the text of the
  second directive is no longer in the response when its failure is to be written there:
  the text that is returned holds the rest of the second directive and no line of a failed
  edit.
\<close>

theorem failed_edit_after_adjacent_directive_not_shown:
  "snd (apply_edit
          (fst (apply_edit demo_fs (joinpath [py ''projects'', py ''demo''] (py ''a'')) (py ''x'')))
          (joinpath [py ''projects'', py ''demo''] (py ''app.py/x'')) (py ''1'')) =
     Some (OSError EEXIST [py ''projects'', py ''demo'', py ''app.py'']) \<and>
   snd (process_file_edits (\<lambda>e. py ''E'') [py ''projects'', py ''demo''] demo_fs
          (py ''FILE_EDIT: a'' @ [10] @ py ''x'' @ [10] @ py ''END_FILE_EDIT'' @
           py ''FILE_EDIT: app.py/x'' @ [10] @ py ''1'' @ [10] @ py ''END_FILE_EDIT'')) =
     applied_line (py ''a'') @
     py ''ILE_EDIT: app.py/x'' @ [10] @ py ''1'' @ [10] @ py ''END_FILE_EDIT'' \<and>
   \<not> sublist (py ''ERROR UPDATING'')
       (applied_line (py ''a'') @
        py ''ILE_EDIT: app.py/x'' @ [10] @ py ''1'' @ [10] @ py ''END_FILE_EDIT'')"
proof (intro conjI)
  show "snd (apply_edit
          (fst (apply_edit demo_fs (joinpath [py ''projects'', py ''demo''] (py ''a'')) (py ''x'')))
          (joinpath [py ''projects'', py ''demo''] (py ''app.py/x'')) (py ''1'')) =
     Some (OSError EEXIST [py ''projects'', py ''demo'', py ''app.py''])"
    by (simp add: exec_simps demo_fs_def path_simps)
  show "snd (process_file_edits (\<lambda>e. py ''E'') [py ''projects'', py ''demo''] demo_fs
          (py ''FILE_EDIT: a'' @ [10] @ py ''x'' @ [10] @ py ''END_FILE_EDIT'' @
           py ''FILE_EDIT: app.py/x'' @ [10] @ py ''1'' @ [10] @ py ''END_FILE_EDIT'')) =
     applied_line (py ''a'') @
     py ''ILE_EDIT: app.py/x'' @ [10] @ py ''1'' @ [10] @ py ''END_FILE_EDIT''"
    by (simp add: edit_simps demo_fs_def path_simps)
  show "\<not> sublist (py ''ERROR UPDATING'')
       (applied_line (py ''a'') @
        py ''ILE_EDIT: app.py/x'' @ [10] @ py ''1'' @ [10] @ py ''END_FILE_EDIT'')"
    unfolding applied_line_def glyph_applied_def by code_simp
qed

section \<open>The text that a status line replaces\<close>

text \<open>
  C3, where the source departs from it. The text that is replaced reaches one character
  past the end marker: the line feed between the directive and \<open>Done.\<close> is gone from the
  text that is shown. When a directive follows the end marker at once, its first letter
  is consumed with the first directive, and its own text stays in the response although
  its edit is applied.
\<close>

theorem status_line_consumes_following_character:
  "snd (process_file_edits (\<lambda>e. []) [py ''projects'', py ''demo''] demo_fs
          (py ''See:'' @ [10] @ py ''FILE_EDIT: app.py'' @ [10] @ py ''print(3)'' @ [10] @
           py ''END_FILE_EDIT'' @ [10] @ py ''Done.'')) =
     py ''See:'' @ [10] @ applied_line (py ''app.py'') @ py ''Done.'' \<and>
   snd (process_file_edits (\<lambda>e. []) [py ''projects'', py ''demo''] demo_fs
          (py ''FILE_EDIT: a'' @ [10] @ py ''x'' @ [10] @ py ''END_FILE_EDIT'' @
           py ''FILE_EDIT: b'' @ [10] @ py ''y'' @ [10] @ py ''END_FILE_EDIT'')) =
     applied_line (py ''a'') @ py ''ILE_EDIT: b'' @ [10] @ py ''y'' @ [10] @ py ''END_FILE_EDIT'' \<and>
   fst (process_file_edits (\<lambda>e. []) [py ''projects'', py ''demo''] demo_fs
          (py ''FILE_EDIT: a'' @ [10] @ py ''x'' @ [10] @ py ''END_FILE_EDIT'' @
           py ''FILE_EDIT: b'' @ [10] @ py ''y'' @ [10] @ py ''END_FILE_EDIT''))
     [py ''projects'', py ''demo'', py ''b''] = Some (File (py ''y''))"
  by (simp add: edit_simps demo_fs_def path_simps)

section \<open>The order of the writes of a materialisation\<close>

lemma walk_resolves:
  "walk fs cur p = Inr t \<Longrightarrow>
     t = foldl (\<lambda>cur c. if c = py ''..'' then butlast cur else cur @ [c]) cur p"
proof (induction p arbitrary: cur)
  case Nil
  then show ?case by simp
next
  case (Cons c cs)
  then show ?case
    by (auto split: option.splits node.splits if_splits)
qed

lemma walk_resolve: "walk fs [] p = Inr t \<Longrightarrow> t = resolve p"
  unfolding resolve_def by (rule walk_resolves)

lemma write_file_read:
  assumes "write_file fs p chunks = (fs', None)"
  shows "read_file fs' p = Some (concat chunks)"
proof -
  from assms obtain t where w: "walk fs [] p = Inr t" and nd: "fs t \<noteq> Some Dir"
    and ok: "\<not> bad_path p" and fs': "fs' = fs(t \<mapsto> File (concat chunks))"
    by (rule write_file_result)
  have "walk fs' [] p = Inr t"
    by (rule walk_mono [OF _ w]) (use nd in \<open>auto simp: fs'\<close>)
  then show ?thesis
    using ok by (simp add: read_file_def fs')
qed

lemma write_file_keeps_dirs:
  assumes "write_file fs p chunks = (fs', r)" and "fs x = Some Dir"
  shows "fs' x = Some Dir"
  using assms(1)
proof (cases rule: write_file_cases)
  case (closed e)
  with assms(2) show ?thesis by simp
next
  case (opened t w)
  with assms(2) show ?thesis by auto
qed

lemma write_file_keeps_other:
  assumes "write_file fs p chunks = (fs', r)" and "resolve p \<noteq> x"
  shows "fs' x = fs x"
  using assms(1)
proof (cases rule: write_file_cases)
  case (closed e)
  then show ?thesis by simp
next
  case (opened t w)
  from walk_resolve [OF opened(1)] assms(2) opened(5) show ?thesis
    by simp
qed

lemma os_mkdir_keeps:
  "os_mkdir fs p = Inr fs' \<Longrightarrow> fs x = Some v \<Longrightarrow> fs' x = Some v"
  by (auto simp: os_mkdir_def split: sum.splits if_splits)

lemma mkdir_exist_ok_keeps:
  "mkdir_exist_ok fs p = (fs', r) \<Longrightarrow> fs x = Some v \<Longrightarrow> fs' x = Some v"
  by (auto simp: mkdir_exist_ok_def os_mkdir_keeps split: sum.splits if_splits exn.splits)

text \<open>Making directories changes no node that is there.\<close>

lemma mkdir_parents_keeps:
  "mkdir_parents fs p = (fs', r) \<Longrightarrow> fs x = Some v \<Longrightarrow> fs' x = Some v"
proof (induction fs p arbitrary: fs' r rule: mkdir_parents.induct)
  case (1 fs p)
  show ?case
  proof (cases "os_mkdir fs p")
    case (Inr fs1)
    with "1.prems" show ?thesis
      by (simp add: mkdir_parents.simps [of fs p] os_mkdir_keeps)
  next
    case (Inl x0)
    show ?thesis
    proof (cases "\<exists>q. x0 = OSError ENOENT q \<and> parent p \<noteq> p")
      case False
      with Inl "1.prems" show ?thesis
        by (auto simp: mkdir_parents.simps [of fs p] split: if_splits exn.splits)
    next
      case True
      then obtain e q where err: "os_mkdir fs p = Inl (OSError e q)"
        and True: "e = ENOENT \<and> parent p \<noteq> p"
        using Inl by auto
      obtain fs1 r1 where rec: "mkdir_parents fs (parent p) = (fs1, r1)"
        by (cases "mkdir_parents fs (parent p)")
      have keep1: "fs1 x = Some v"
        using "1.IH" [OF err _ _ _ rec] True "1.prems"(2) by simp
      show ?thesis
      proof (cases r1)
        case None
        with err True rec "1.prems"(1) have "mkdir_exist_ok fs1 p = (fs', r)"
          by (simp add: mkdir_parents.simps [of fs p])
        with keep1 show ?thesis
          by (rule mkdir_exist_ok_keeps [rotated])
      next
        case (Some e1)
        with err True rec "1.prems"(1) have "fs' = fs1"
          by (simp add: mkdir_parents.simps [of fs p])
        with keep1 show ?thesis
          by simp
      qed
    qed
  qed
qed

lemma create_items_append:
  "create_items fs pp (xs @ ys) =
     (case create_items fs pp xs of
        (fs1, Some e) \<Rightarrow> (fs1, Some e)
      | (fs1, None) \<Rightarrow> create_items fs1 pp ys)"
  by (induction xs arbitrary: fs) (auto simp: Let_def split: prod.splits option.splits)

lemma create_items_keeps_dirs:
  "create_items fs pp items = (fs', r) \<Longrightarrow> fs x = Some Dir \<Longrightarrow> fs' x = Some Dir"
proof (induction items arbitrary: fs)
  case Nil
  then show ?case by simp
next
  case (Cons item items)
  let ?full = "joinpath pp (item_path item)"
  show ?case
  proof (cases "item_type item = py ''directory''")
    case True
    obtain fs1 r1 where mk: "mkdir_parents fs ?full = (fs1, r1)"
      by (cases "mkdir_parents fs ?full")
    from mkdir_parents_keeps [OF mk Cons.prems(2)] have k1: "fs1 x = Some Dir" .
    show ?thesis
    proof (cases r1)
      case None
      with True mk Cons.prems(1) have "create_items fs1 pp items = (fs', r)"
        by (simp add: Let_def)
      from Cons.IH [OF this k1] show ?thesis .
    next
      case (Some e)
      with True mk Cons.prems(1) k1 show ?thesis
        by (simp add: Let_def)
    qed
  next
    case nd: False
    show ?thesis
    proof (cases "item_type item = py ''file''")
      case False
      with nd Cons.prems(1) have "create_items fs pp items = (fs', r)"
        by (simp add: Let_def)
      from Cons.IH [OF this Cons.prems(2)] show ?thesis .
    next
      case True
      obtain fs1 r1 where mk: "mkdir_parents fs (parent ?full) = (fs1, r1)"
        by (cases "mkdir_parents fs (parent ?full)")
      from mkdir_parents_keeps [OF mk Cons.prems(2)] have k1: "fs1 x = Some Dir" .
      show ?thesis
      proof (cases r1)
        case (Some e)
        with nd True mk Cons.prems(1) k1 show ?thesis
          by (simp add: Let_def)
      next
        case None
        obtain fs2 r2 where wf: "write_file fs1 ?full [get_or (item_content item) []] = (fs2, r2)"
          by (cases "write_file fs1 ?full [get_or (item_content item) []]")
        from write_file_keeps_dirs [OF wf k1] have k2: "fs2 x = Some Dir" .
        show ?thesis
        proof (cases r2)
          case (Some e)
          with wf None nd True mk Cons.prems(1) k2 show ?thesis
            by (simp add: Let_def)
        next
          case none: None
          with wf None nd True mk Cons.prems(1) have "create_items fs2 pp items = (fs', r)"
            by (simp add: Let_def)
          from Cons.IH [OF this k2] show ?thesis .
        qed
      qed
    qed
  qed
qed

text \<open>
  An entry changes a regular file only when it is a file entry that resolves to it.
\<close>

lemma create_items_keeps_file:
  "create_items fs pp items = (fs', r) \<Longrightarrow> fs x = Some v \<Longrightarrow>
   \<forall>i \<in> set items. item_type i = py ''file'' \<longrightarrow> resolve (joinpath pp (item_path i)) \<noteq> x \<Longrightarrow>
   fs' x = Some v"
proof (induction items arbitrary: fs)
  case Nil
  then show ?case by simp
next
  case (Cons item items)
  let ?full = "joinpath pp (item_path item)"
  from Cons.prems(3) have later: "\<forall>i \<in> set items. item_type i = py ''file'' \<longrightarrow>
      resolve (joinpath pp (item_path i)) \<noteq> x"
    by simp
  show ?case
  proof (cases "item_type item = py ''directory''")
    case True
    obtain fs1 r1 where mk: "mkdir_parents fs ?full = (fs1, r1)"
      by (cases "mkdir_parents fs ?full")
    from mkdir_parents_keeps [OF mk Cons.prems(2)] have k1: "fs1 x = Some v" .
    show ?thesis
    proof (cases r1)
      case None
      with True mk Cons.prems(1) have "create_items fs1 pp items = (fs', r)"
        by (simp add: Let_def)
      from Cons.IH [OF this k1 later] show ?thesis .
    next
      case (Some e)
      with True mk Cons.prems(1) k1 show ?thesis
        by (simp add: Let_def)
    qed
  next
    case nd: False
    show ?thesis
    proof (cases "item_type item = py ''file''")
      case False
      with nd Cons.prems(1) have "create_items fs pp items = (fs', r)"
        by (simp add: Let_def)
      from Cons.IH [OF this Cons.prems(2) later] show ?thesis .
    next
      case True
      with Cons.prems(3) have other: "resolve ?full \<noteq> x"
        by simp
      obtain fs1 r1 where mk: "mkdir_parents fs (parent ?full) = (fs1, r1)"
        by (cases "mkdir_parents fs (parent ?full)")
      from mkdir_parents_keeps [OF mk Cons.prems(2)] have k1: "fs1 x = Some v" .
      show ?thesis
      proof (cases r1)
        case (Some e)
        with nd True mk Cons.prems(1) k1 show ?thesis
          by (simp add: Let_def)
      next
        case None
        obtain fs2 r2 where wf: "write_file fs1 ?full [get_or (item_content item) []] = (fs2, r2)"
          by (cases "write_file fs1 ?full [get_or (item_content item) []]")
        from write_file_keeps_other [OF wf other] k1 have k2: "fs2 x = Some v"
          by simp
        show ?thesis
        proof (cases r2)
          case (Some e)
          with wf None nd True mk Cons.prems(1) k2 show ?thesis
            by (simp add: Let_def)
        next
          case none: None
          with wf None nd True mk Cons.prems(1) have rec: "create_items fs2 pp items = (fs', r)"
            by (simp add: Let_def)
          from Cons.IH [OF rec k2 later] show ?thesis .
        qed
      qed
    qed
  qed
qed

text \<open>A file entry that is created leaves its content at the node its path resolves to.\<close>

lemma create_file_item:
  assumes "create_items fs pp [entry] = (fs', None)" and "item_type entry = py ''file''"
  shows "fs' (resolve (joinpath pp (item_path entry))) =
           Some (File (get_or (item_content entry) []))"
    and "walk fs' [] (joinpath pp (item_path entry)) = Inr (resolve (joinpath pp (item_path entry)))"
    and "\<not> bad_path (joinpath pp (item_path entry))"
proof -
  let ?full = "joinpath pp (item_path entry)"
  have nd: "item_type entry \<noteq> py ''directory''"
    using assms(2) by simp
  from assms nd obtain fs1 where "mkdir_parents fs (parent ?full) = (fs1, None)"
    and op: "write_file fs1 ?full [get_or (item_content entry) []] = (fs', None)"
    by (auto simp: Let_def split: prod.splits option.splits)
  from op obtain t where w: "walk fs1 [] ?full = Inr t" and notdir: "fs1 t \<noteq> Some Dir"
    and ok: "\<not> bad_path ?full"
    and "fs' = fs1(t \<mapsto> File (concat [get_or (item_content entry) []]))"
    by (rule write_file_result)
  then have fs': "fs' = fs1(t \<mapsto> File (get_or (item_content entry) []))"
    by simp
  from walk_resolve [OF w] have t: "t = resolve ?full" .
  then show "fs' (resolve ?full) = Some (File (get_or (item_content entry) []))"
    by (simp add: fs')
  have "walk fs' [] ?full = Inr t"
    by (rule walk_mono [OF _ w]) (use notdir in \<open>auto simp: fs'\<close>)
  with t show "walk fs' [] ?full = Inr (resolve ?full)"
    by simp
  from ok show "\<not> bad_path ?full" .
qed

text \<open>The content of the last file entry for a node is what the node holds in the end.\<close>

lemma create_items_last_wins:
  assumes ok: "create_items fs pp (before @ [entry] @ after) = (fs', None)"
    and ty: "item_type entry = py ''file''"
    and later: "\<forall>i \<in> set after. item_type i = py ''file'' \<longrightarrow>
        resolve (joinpath pp (item_path i)) \<noteq> resolve (joinpath pp (item_path entry))"
  shows "read_file fs' (joinpath pp (item_path entry)) = Some (get_or (item_content entry) [])"
proof -
  let ?full = "joinpath pp (item_path entry)"
  define single where "single = [entry]"
  define tail where "tail = single @ after"
  from ok have "create_items fs pp (before @ tail) = (fs', None)"
    by (simp add: tail_def single_def)
  then obtain fsA where "create_items fsA pp tail = (fs', None)"
    by (auto simp: create_items_append [of fs pp before tail] split: prod.splits option.splits)
  then obtain fsB where "create_items fsA pp single = (fsB, None)"
    and rest: "create_items fsB pp after = (fs', None)"
    unfolding tail_def
    by (auto simp: create_items_append [of fsA pp single after] split: prod.splits option.splits)
  then have one: "create_items fsA pp [entry] = (fsB, None)"
    by (simp only: single_def)
  from create_file_item [OF one ty]
  have node: "fsB (resolve ?full) = Some (File (get_or (item_content entry) []))"
    and w: "walk fsB [] ?full = Inr (resolve ?full)"
    and good: "\<not> bad_path ?full"
    by simp_all
  from create_items_keeps_file [OF rest node later]
  have "fs' (resolve ?full) = Some (File (get_or (item_content entry) []))" .
  moreover have "walk fs' [] ?full = Inr (resolve ?full)"
    by (rule walk_mono [OF _ w]) (rule create_items_keeps_dirs [OF rest])
  ultimately show ?thesis
    using good by (simp add: read_file_def)
qed

lemma resolve_snoc: "c \<noteq> py ''..'' \<Longrightarrow> resolve (p @ [c]) = resolve p @ [c]"
  by (simp add: resolve_def)

lemma write_file_keeps_read:
  assumes op: "write_file fs p chunks = (fs', r)" and other: "resolve p \<noteq> resolve q"
    and rd: "read_file fs q = Some d"
  shows "read_file fs' q = Some d"
proof -
  from rd obtain t where w: "walk fs [] q = Inr t" and node: "fs t = Some (File d)"
    and ok: "\<not> bad_path q"
    by (auto simp: read_file_def split: sum.splits option.splits node.splits if_splits)
  from walk_resolve [OF w] other have "resolve p \<noteq> t"
    by simp
  from write_file_keeps_other [OF op this] node have "fs' t = Some (File d)"
    by simp
  moreover have "walk fs' [] q = Inr t"
    by (rule walk_mono [OF _ w]) (rule write_file_keeps_dirs [OF op])
  ultimately show ?thesis
    using ok by (simp add: read_file_def)
qed

text \<open>
  C5. When \<open>_create_project\<close> returns the project path, the entries of the plan were
  created, in their order, on a file system that already held the generated README and,
  for a plan with the technology \<open>python\<close>, the manifest. So a file entry holds its
  content in the end, whatever was at its path before, the generated README or manifest
  included, as long as no later file entry resolves to the same node.
\<close>

theorem entries_written_after_readme:
  assumes ok: "create_project projects_dir fs plan confirm = (fs', Inr (Some project_path))"
  shows "(\<exists>fs3. read_file fs3 (joinpath project_path (py ''README.md'')) = Some (readme_text plan) \<and>
            (py ''python'' \<in> set (get_or (technologies plan) []) \<longrightarrow>
               read_file fs3 (joinpath project_path (py ''requirements.txt'')) =
                 Some (requirements_text plan)) \<and>
            create_items fs3 project_path (structure' plan) = (fs', None)) \<and>
         (\<forall>before entry after.
            structure' plan = before @ [entry] @ after \<and> item_type entry = py ''file'' \<and>
            (\<forall>i \<in> set after. item_type i = py ''file'' \<longrightarrow>
               resolve (joinpath project_path (item_path i)) \<noteq>
               resolve (joinpath project_path (item_path entry))) \<longrightarrow>
            read_file fs' (joinpath project_path (item_path entry)) =
              Some (get_or (item_content entry) []))"
proof -
  let ?readme = "joinpath project_path (py ''README.md'')"
  let ?manifest = "joinpath project_path (py ''requirements.txt'')"
  let ?python = "py ''python'' \<in> set (get_or (technologies plan) [])"
  from ok obtain fs1 fs2 fs3 where pp: "project_path = joinpath projects_dir (project_name plan)"
    and "mkdir_parents fs project_path = (fs1, None)"
    and w1: "write_file fs1 ?readme (readme_chunks plan) = (fs2, None)"
    and w2: "(if ?python then write_file fs2 ?manifest (requirements_chunks plan)
              else (fs2, None)) = (fs3, None)"
    and items: "create_items fs3 project_path (structure' plan) = (fs', None)"
    by (auto simp: create_project_def Let_def
        split: if_splits prod.splits option.splits)
  have paths: "?readme = project_path @ [py ''README.md'']"
    "?manifest = project_path @ [py ''requirements.txt'']"
    by (simp_all add: path_simps)
  have differ: "resolve ?manifest \<noteq> resolve ?readme"
    unfolding paths by (simp add: resolve_snoc)
  from write_file_read [OF w1] have r2: "read_file fs2 ?readme = Some (readme_text plan)"
    by (simp add: readme_text_def)
  have r3: "read_file fs3 ?readme = Some (readme_text plan)"
  proof (cases ?python)
    case True
    with w2 have "write_file fs2 ?manifest (requirements_chunks plan) = (fs3, None)"
      by simp
    from write_file_keeps_read [OF this differ r2] show ?thesis .
  next
    case False
    with w2 r2 show ?thesis
      by simp
  qed
  have m3: "?python \<longrightarrow> read_file fs3 ?manifest = Some (requirements_text plan)"
  proof
    assume ?python
    with w2 have "write_file fs2 ?manifest (requirements_chunks plan) = (fs3, None)"
      by simp
    from write_file_read [OF this] show "read_file fs3 ?manifest = Some (requirements_text plan)"
      by (simp add: requirements_text_def)
  qed
  have last: "read_file fs' (joinpath project_path (item_path entry)) =
      Some (get_or (item_content entry) [])"
    if "structure' plan = before @ [entry] @ after" and "item_type entry = py ''file''"
      and "\<forall>i \<in> set after. item_type i = py ''file'' \<longrightarrow>
        resolve (joinpath project_path (item_path i)) \<noteq>
        resolve (joinpath project_path (item_path entry))"
    for before entry after
    using create_items_last_wins [of fs3 project_path before entry after fs'] items that
    by simp
  from r3 m3 items last show ?thesis
    by blast
qed

theorem entries_written_after_readme_witness:
  "snd (create_project [py ''projects''] demo_fs readme_plan []) =
     Inr (Some [py ''projects'', py ''new'']) \<and>
   read_file (fst (create_project [py ''projects''] demo_fs readme_plan []))
     [py ''projects'', py ''new'', py ''README.md''] = Some (py ''mine'')"
proof -
  let ?entry = "\<lparr>item_path = py ''README.md'', item_type = py ''file'',
      item_content = Some (py ''mine'')\<rparr>"
  let ?after = "[\<lparr>item_path = py ''src'', item_type = py ''directory'', item_content = None\<rparr>,
      \<lparr>item_path = py ''src/app.py'', item_type = py ''file'',
       item_content = Some (py ''print(1)'')\<rparr>]"
  have returned: "snd (create_project [py ''projects''] demo_fs readme_plan []) =
      Inr (Some [py ''projects'', py ''new''])"
    by (simp add: create_project_def readme_plan_def demo_fs_def path_simps exec_simps
        get_or_def readme_chunks_def requirements_chunks_def Let_def)
  then have ok: "create_project [py ''projects''] demo_fs readme_plan [] =
      (fst (create_project [py ''projects''] demo_fs readme_plan []),
       Inr (Some [py ''projects'', py ''new'']))"
    by (simp add: prod_eq_iff)
  have st: "structure' readme_plan = [] @ [?entry] @ ?after"
    by (simp add: readme_plan_def)
  have ty: "item_type ?entry = py ''file''"
    by simp
  have later: "\<forall>i \<in> set ?after. item_type i = py ''file'' \<longrightarrow>
      resolve (joinpath [py ''projects'', py ''new''] (item_path i)) \<noteq>
      resolve (joinpath [py ''projects'', py ''new''] (item_path ?entry))"
    by (simp add: path_simps resolve_def)
  have target: "joinpath [py ''projects'', py ''new''] (item_path ?entry) =
      [py ''projects'', py ''new'', py ''README.md'']"
    by (simp add: path_simps)
  from entries_written_after_readme [OF ok, THEN conjunct2, rule_format, of "[]" ?entry ?after]
    st ty later
  have "read_file (fst (create_project [py ''projects''] demo_fs readme_plan []))
      (joinpath [py ''projects'', py ''new''] (item_path ?entry)) =
      Some (get_or (item_content ?entry) [])"
    by blast
  then have "read_file (fst (create_project [py ''projects''] demo_fs readme_plan []))
      [py ''projects'', py ''new'', py ''README.md''] = Some (py ''mine'')"
    unfolding target by (simp add: get_or_def)
  with returned show ?thesis
    by (intro conjI)
qed

end
